theory Spec2Isabelle
  imports Complex_Main "HOL-Library.Log_Nat"
begin

section \<open>Cochlea model: parameters, geometry and export frames\<close>

text \<open>
  A shallow embedding of \<^verbatim>\<open>cochlea_parameters.py\<close>, \<^verbatim>\<open>cochlea_model.py\<close> and the
  cross-section part of \<^verbatim>\<open>cochlea_export.py\<close>.  numpy's float64 values are read as
  real numbers, a one-dimensional numpy array as a list, a raised exception as the left
  summand of a result.  Arithmetic is exact, except in \<^verbatim>\<open>np.arange\<close>, where the number of
  samples is the ceiling of a rounded quotient: there the rounding to float64 is written
  out.
\<close>

subsection \<open>Errors\<close>

datatype error =
    ValueError_arity
      \<comment> \<open>\<^verbatim>\<open>ValueError("Parameters must be a 4-element array")\<close>\<close>
  | ValueError_bounds string real real real
      \<comment> \<open>\<^verbatim>\<open>ValueError(f"{name} = {value} is outside reasonable bounds [{min_val}, {max_val}]")\<close>\<close>
  | ValueError_mode
      \<comment> \<open>\<^verbatim>\<open>ValueError("Mode must be 'mean' or 'random'")\<close>\<close>
  | KeyError string
      \<comment> \<open>a lookup in the \<^verbatim>\<open>bounds\<close> dict of a name it does not hold\<close>
  | Numpy_arange_error
      \<comment> \<open>raised inside \<^verbatim>\<open>np.arange\<close> when the length is not a 64-bit index\<close>
  | Numpy_loadtxt_error
      \<comment> \<open>raised inside \<^verbatim>\<open>np.loadtxt\<close> on a field that is not a number or a ragged row\<close>
  | IndexError
      \<comment> \<open>an array read at an index outside the array\<close>
  | FileNotFoundError
      \<comment> \<open>a file opened for reading that does not exist\<close>

subsection \<open>Coefficient tables (\<^verbatim>\<open>_initialize_coefficients\<close>)\<close>

definition coefs_height :: "real list list" where
  "coefs_height =
    [[-2.025562262381, 0.308684774745994, -0.0245970612199774, 0.00093743547596123, -0.00000649142944919421],
     [-0.483933701821246, 0.150263587271025, -0.0249700764778651, 0.00184112837255666, -0.0000468696577096306],
     [0.0936906993853392, 0.0485929242340616, -0.0111388827166082, 0.000852542615496957, -0.0000239666478178502],
     [0.437215616236419, -0.609467318753365, 0.147019129524084, -0.012345472153677, 0.000341806092537278],
     [0.19884386428529, 0.0706538846984097, -0.0490269768729332, 0.00553612473205947, -0.000178036145575138]]"

definition coefs_modiolus :: "real list list" where
  "coefs_modiolus =
    [[-0.0972007477234853, 0.0652777719428317, 0.00579010295961996, -0.000410053336041606],
     [0.745407586062517, -0.297795950930632, 0.0353079060718429, -0.00125774660897636],
     [0.349940654425921, -0.0488173880945223, 0.00235713329581525, -0.0000338189250648794],
     [0.0567728210841444, 0.115930983938798, -0.0170603835499829, 0.000605305012135639],
     [-0.0613995454924607, 0.170502985259421, -0.0267552502171719, 0.00111572946871731]]"

definition coefs_turns :: "real list" where
  "coefs_turns = [963.166310413576, 6.37772934525638, -26.9585473096045,
                  -36.3953582023656, 66.9416454453684]"

subsection \<open>The random generator\<close>

text \<open>
  \<^verbatim>\<open>np.random\<close> is a global generator.  Its state is modelled by the sequence of
  standard normal deviates it will hand out next; \<^verbatim>\<open>np.random.normal(loc, scale)\<close>
  takes the first one \<open>z\<close> and returns \<open>loc + scale * z\<close>.
\<close>

type_synonym rng = "nat \<Rightarrow> real"

definition advance :: "nat \<Rightarrow> rng \<Rightarrow> rng" where
  "advance k g = (\<lambda>n. g (n + k))"

definition random_normal :: "real \<Rightarrow> real \<Rightarrow> rng \<Rightarrow> real \<times> rng" where
  "random_normal loc scale g = (loc + scale * g 0, advance 1 g)"

text \<open>
  \<^verbatim>\<open>np.random.multivariate_normal(mean_vector, correlation_matrix)\<close> draws one deviate
  for each of the four components.  \<^verbatim>\<open>generate_parameters\<close> never reads the result, so
  only the effect on the generator is kept.
\<close>

definition random_multivariate_normal_4 :: "rng \<Rightarrow> rng" where
  "random_multivariate_normal_4 g = advance 4 g"

subsection \<open>\<^verbatim>\<open>CochleaParameters.generate_parameters\<close>\<close>

definition means :: "real list" where
  "means = [5.97, 3.95, 3.26, 2.85]"

definition stds :: "real list" where
  "stds = [0.36, 0.35, 0.28, 0.33]"

text \<open>The loop \<^verbatim>\<open>for i in range(4)\<close>, run over the indices that are left.\<close>

fun random_loop :: "nat list \<Rightarrow> real list \<Rightarrow> rng \<Rightarrow> real list \<times> rng" where
  "random_loop [] parameters g = (parameters, g)"
| "random_loop (i # is) parameters g =
     (let (uniform_value, g1) = random_normal 0 1 g;
          (p, g2) = random_normal (means ! i) (stds ! i) g1
      in random_loop is (parameters[i := p]) g2)"

definition generate_parameters :: "string \<Rightarrow> rng \<Rightarrow> error + (real list \<times> rng)" where
  "generate_parameters mode g =
     (if mode = ''mean'' then Inr ([5.97, 3.95, 3.26, 2.85], g)
      else if mode = ''random'' then
        (let g1 = random_multivariate_normal_4 g
         in Inr (random_loop [0 ..< 4] (replicate 4 0) g1))
      else Inl ValueError_mode)"

subsection \<open>\<^verbatim>\<open>CochleaParameters.validate_parameters\<close>\<close>

definition bounds :: "(string \<times> real \<times> real) list" where
  "bounds = [(''A1'', (4.0, 8.0)), (''B1'', (2.5, 5.5)), (''A2'', (2.0, 4.5)), (''B2'', (1.5, 4.0))]"

definition param_names :: "string list" where
  "param_names = [''A1'', ''B1'', ''A2'', ''B2'']"

text \<open>The loop over \<^verbatim>\<open>zip(param_names, parameters)\<close>: the first value out of its bounds raises.\<close>

fun validate_loop :: "(string \<times> real) list \<Rightarrow> error + bool" where
  "validate_loop [] = Inr True"
| "validate_loop ((name, v) # rest) =
     (case map_of bounds name of
        None \<Rightarrow> Inl (KeyError name)
      | Some (min_val, max_val) \<Rightarrow>
          if \<not> (min_val \<le> v \<and> v \<le> max_val)
          then Inl (ValueError_bounds name v min_val max_val)
          else validate_loop rest)"

definition validate_parameters :: "real list \<Rightarrow> error + bool" where
  "validate_parameters parameters =
     (if length parameters \<noteq> 4 then Inl ValueError_arity
      else validate_loop (zip param_names parameters))"

subsection \<open>\<^verbatim>\<open>CochleaModel\<close>: construction and the two polynomials\<close>

record CochleaModel =
  A :: "real list"
  c_length :: real
  n_turns :: real

text \<open>
  \<^verbatim>\<open>np.dot\<close> of two vectors.  Every call in the model pairs \<^verbatim>\<open>np.append(1, self.A)\<close>
  with a table column of five entries, and \<open>A\<close> has four entries in every constructed
  model, so the shapes agree.
\<close>

definition dot :: "real list \<Rightarrow> real list \<Rightarrow> real" where
  "dot xs ys = sum_list (map2 (*) xs ys)"

definition turn_number_estimation :: "real list \<Rightarrow> real" where
  "turn_number_estimation a = dot (1 # a) coefs_turns / 360"

text \<open>The derived attributes, computed from \<^verbatim>\<open>self.A\<close> at the end of \<^verbatim>\<open>__init__\<close>.\<close>

definition derive_model :: "real list \<Rightarrow> CochleaModel" where
  "derive_model a =
     (let cl = turn_number_estimation a * 2 * pi
      in \<lparr> A = a, c_length = cl, n_turns = cl / (2 * pi) \<rparr>)"

definition CochleaModel_init :: "real list option \<Rightarrow> string \<Rightarrow> rng \<Rightarrow> error + (CochleaModel \<times> rng)" where
  "CochleaModel_init parameters mode g =
     (case parameters of
        None \<Rightarrow>
          (case generate_parameters mode g of
             Inl e \<Rightarrow> Inl e
           | Inr (a, g') \<Rightarrow> Inr (derive_model a, g'))
      | Some ps \<Rightarrow>
          (case validate_parameters ps of
             Inl e \<Rightarrow> Inl e
           | Inr _ \<Rightarrow> Inr (derive_model ps, g)))"

text \<open>\<^verbatim>\<open>coefs[name][:, i]\<close>: column \<open>i\<close> of a table.\<close>

definition column :: "real list list \<Rightarrow> nat \<Rightarrow> real list" where
  "column table i = map (\<lambda>row. row ! i) table"

text \<open>\<^verbatim>\<open>np.polyval\<close>: Horner's scheme, highest degree first.\<close>

definition polyval :: "real list \<Rightarrow> real \<Rightarrow> real" where
  "polyval p x = foldl (\<lambda>acc c. acc * x + c) 0 p"

definition get_radius_coeffs :: "CochleaModel \<Rightarrow> real list" where
  "get_radius_coeffs m = rev (map (\<lambda>i. dot (1 # A m) (column coefs_modiolus i)) [0 ..< 4])"

definition get_height_coeffs :: "CochleaModel \<Rightarrow> real list" where
  "get_height_coeffs m = rev (map (\<lambda>i. dot (1 # A m) (column coefs_height i)) [0 ..< 5])"

definition radius_modiolus_poly :: "CochleaModel \<Rightarrow> real \<Rightarrow> real" where
  "radius_modiolus_poly m phi =
     polyval (rev (map (\<lambda>i. dot (1 # A m) (column coefs_modiolus i)) [0 ..< 4])) phi"

definition height_poly :: "CochleaModel \<Rightarrow> real \<Rightarrow> real" where
  "height_poly m phi =
     polyval (rev (map (\<lambda>i. dot (1 # A m) (column coefs_height i)) [0 ..< 5])) phi"

subsection \<open>\<^verbatim>\<open>CochleaModel.get_point_at_position\<close>\<close>

record PointInfo =
  position :: "real list"
  radius_modiolus :: real
  height :: real
  point_phi :: real
  point_turns :: real

text \<open>The method has no \<^verbatim>\<open>raise\<close>: every argument reaches the \<^verbatim>\<open>return\<close>.\<close>

definition get_point_at_position :: "CochleaModel \<Rightarrow> real \<Rightarrow> error + PointInfo" where
  "get_point_at_position m turn_fraction =
     (let phi = turn_fraction * c_length m;
          r = radius_modiolus_poly m phi
      in Inr \<lparr> position = [r * cos phi, r * sin phi, height_poly m phi],
               radius_modiolus = r,
               height = height_poly m phi,
               point_phi = phi,
               point_turns = phi / (2 * pi) \<rparr>)"

subsection \<open>\<^verbatim>\<open>CochleaModel.generate_geometry\<close>\<close>

text \<open>Rounding to the nearest integer, a tie going to the even neighbour.\<close>

definition round_half_even :: "real \<Rightarrow> int" where
  "round_half_even x =
     (let f = \<lfloor>x\<rfloor>; d = x - of_int f
      in if d < 1 / 2 then f
         else if 1 / 2 < d then f + 1
         else if even f then f else f + 1)"

text \<open>
  Rounding of a real number to float64: \<open>expo x\<close> is the binary exponent of \<open>x\<close> (the
  \<open>e\<close> with \<open>2^e \<le> |x| < 2^(e+1)\<close>), and \<open>fl x\<close> is the nearest multiple of \<open>2^(e-52)\<close>, a tie
  going to the even significand.  The exponent is not bounded: overflow and subnormal
  numbers are outside this rounding.
\<close>

definition expo :: "real \<Rightarrow> int" where
  "expo x = (if 1 \<le> \<bar>x\<bar> then bitlen \<lfloor>\<bar>x\<bar>\<rfloor> - 1 else - bitlen (\<lceil>1 / \<bar>x\<bar>\<rceil> - 1))"

definition fl :: "real \<Rightarrow> real" where
  "fl x = (if x = 0 then 0
           else (let u = 2 powi (expo x - 52) in of_int (round_half_even (x / u)) * u))"

text \<open>
  \<^verbatim>\<open>np.arange(start, stop, step)\<close> on floats.  The length is the ceiling of the float64
  quotient \<open>(stop - start) / step\<close>; numpy raises when that ceiling is not a 64-bit index,
  which is also what a zero step leads to (the quotient is then infinite or not a
  number).  A length that is not positive gives the empty array.  The first two entries
  are \<open>start\<close> and \<open>start + step\<close>, and entry \<open>i\<close> is \<open>start + i * delta\<close> for the difference
  \<open>delta\<close> of the first two, each operation rounded.  Both calls in \<open>generate_geometry\<close> start at 0.
  A ceiling of exactly \<open>2^63\<close>, where the conversion to an index is not defined in C, is
  taken with the lengths that raise.  Exhaustion of memory by a long array is outside
  the model.
\<close>

definition arange :: "real \<Rightarrow> real \<Rightarrow> real \<Rightarrow> error + real list" where
  "arange start stop step =
     (if step = 0 then Inl Numpy_arange_error
      else (let n = \<lceil>fl (fl (stop - start) / step)\<rceil>
            in if n < - (2 ^ 63) \<or> 2 ^ 63 - 1 < n then Inl Numpy_arange_error
               else (let first = fl start;
                         second = fl (start + step);
                         delta = fl (second - first)
                     in Inr (map (\<lambda>i. if i = 0 then first
                                      else if i = 1 then second
                                      else fl (first + fl (real i * delta)))
                                 [0 ..< nat n]))))"

record Geometry =
  centerline :: "real list list"
  scala_x :: "real list list"
  scala_y :: "real list list"
  scala_z :: "real list list"
  geo_phi :: "real list"
  geo_turns :: "real list"
  r_modiolus :: "real list"

text \<open>The local tube radius of the surface loop, at spiral angle \<open>p\<close>.\<close>

definition r_scala :: "CochleaModel \<Rightarrow> real \<Rightarrow> real" where
  "r_scala m p = (c_length m - p) / c_length m * 0.5 + 0.6"

text \<open>
  The double loop fills \<^verbatim>\<open>scala_x[j, i]\<close>, \<^verbatim>\<open>scala_y[j, i]\<close> and \<^verbatim>\<open>scala_z[j, i]\<close> for
  every \<open>i\<close> (index into \<open>phi\<close>) and \<open>j\<close> (index into \<open>v\<close>); each entry is written once, so
  the arrays are given row by row.
\<close>

definition generate_geometry :: "CochleaModel \<Rightarrow> real \<Rightarrow> error + Geometry" where
  "generate_geometry m resolution =
     (case arange 0 (c_length m) resolution of
        Inl e \<Rightarrow> Inl e
      | Inr phi \<Rightarrow>
          (let r_mod = map (radius_modiolus_poly m) phi;
               cl = [map2 (\<lambda>r p. r * cos p) r_mod phi,
                     map2 (\<lambda>r p. r * sin p) r_mod phi,
                     map (height_poly m) phi]
           in case arange 0 (2 * pi) resolution of
                Inl e \<Rightarrow> Inl e
              | Inr v \<Rightarrow>
                  Inr \<lparr> centerline = cl,
                        scala_x = map (\<lambda>angle. map (\<lambda>i.
                            (r_mod ! i + r_scala m (phi ! i) * (cos angle - 1)) * cos (phi ! i))
                            [0 ..< length phi]) v,
                        scala_y = map (\<lambda>angle. map (\<lambda>i.
                            (r_mod ! i + r_scala m (phi ! i) * (cos angle - 1)) * sin (phi ! i))
                            [0 ..< length phi]) v,
                        scala_z = map (\<lambda>angle. map (\<lambda>i.
                            r_scala m (phi ! i) * sin angle + cl ! 2 ! i)
                            [0 ..< length phi]) v,
                        geo_phi = phi,
                        geo_turns = map (\<lambda>p. p / (2 * pi)) phi,
                        r_modiolus = r_mod \<rparr>))"

subsection \<open>Array reads and \<^verbatim>\<open>np.linspace\<close>\<close>





subsection \<open>\<^verbatim>\<open>CochleaModel.generate_cross_sections\<close>\<close>

record CrossSection =
  center :: "real list"
  radius :: real
  angle :: real
  section_phi :: real
  points :: "real list list"





subsection \<open>\<^verbatim>\<open>CochleaExporter.export_csv\<close>: the cross-section frames\<close>

type_synonym vec3 = "real \<times> real \<times> real"

text \<open>\<^verbatim>\<open>np.cross\<close>, \<^verbatim>\<open>np.linalg.norm\<close> and the arithmetic of arrays of three entries.\<close>

fun cross :: "vec3 \<Rightarrow> vec3 \<Rightarrow> vec3" where
  "cross (a1, a2, a3) (b1, b2, b3) = (a2 * b3 - a3 * b2, a3 * b1 - a1 * b3, a1 * b2 - a2 * b1)"

fun linalg_norm :: "vec3 \<Rightarrow> real" where
  "linalg_norm (x, y, z) = sqrt (x\<^sup>2 + y\<^sup>2 + z\<^sup>2)"

fun vdot :: "vec3 \<Rightarrow> vec3 \<Rightarrow> real" where
  "vdot (a1, a2, a3) (b1, b2, b3) = a1 * b1 + a2 * b2 + a3 * b3"

fun vdiv :: "vec3 \<Rightarrow> real \<Rightarrow> vec3" where
  "vdiv (x, y, z) s = (x / s, y / s, z / s)"



text \<open>
  The two perpendiculars of a tangent (the lines under \<^verbatim>\<open># Create perpendicular vectors\<close>).
  Where numpy divides by a zero norm it yields NaN entries with a warning; the real
  quotient is then 0.  The two agree whenever the norm is not zero.
\<close>

definition perpendiculars :: "vec3 \<Rightarrow> vec3 \<times> vec3" where
  "perpendiculars tangent =
     (let perp1 = (if \<bar>snd (snd tangent)\<bar> < 0.9
                   then cross (0, 0, 1) tangent
                   else cross (1, 0, 0) tangent);
          perp1 = vdiv perp1 (linalg_norm perp1);
          perp2 = cross tangent perp1;
          perp2 = vdiv perp2 (linalg_norm perp2)
      in (perp1, perp2))"





text \<open>
  A model record with a given total angle, and two steps that are float64 numbers: the
  one next below one third, and the one next below \<open>3 / 59\<close>.
\<close>

definition third_down :: real where
  "third_down = 6004799503160661 / 2 ^ 54"

definition step_59 :: real where
  "step_59 = 7327890919111315 / 2 ^ 57"

definition model_of_angle :: "real \<Rightarrow> CochleaModel" where
  "model_of_angle c = \<lparr> A = [5.97, 3.95, 3.26, 2.85], c_length = c, n_turns = c / (2 * pi) \<rparr>"


subsection \<open>\<^verbatim>\<open>CochleaModel.calculate_length\<close>: the integrand\<close>

text \<open>\<^verbatim>\<open>np.polyder\<close> of a coefficient list, highest degree first.\<close>

definition polyder :: "real list \<Rightarrow> real list" where
  "polyder p = map2 (\<lambda>c k. c * real k) (butlast p) (rev [1 ..< length p])"

definition integrand :: "CochleaModel \<Rightarrow> bool \<Rightarrow> real \<Rightarrow> real" where
  "integrand m with_height z =
     (let r = radius_modiolus_poly m z;
          dr_dz = polyval (polyder (get_radius_coeffs m)) z;
          x_deriv = dr_dz * cos z - r * sin z;
          y_deriv = dr_dz * sin z + r * cos z
      in if with_height
         then (let dh_dz = polyval (polyder (get_height_coeffs m)) z
               in sqrt (x_deriv\<^sup>2 + y_deriv\<^sup>2 + dh_dz\<^sup>2))
         else sqrt (x_deriv\<^sup>2 + y_deriv\<^sup>2))"

text \<open>
  \<^verbatim>\<open>calculate_length\<close> hands the integrand and the interval from 0 to \<open>c_length\<close> to
  \<^verbatim>\<open>scipy.integrate.quad\<close> and returns its estimate.  The integrator is a parameter.
\<close>

type_synonym integrator = "(real \<Rightarrow> real) \<Rightarrow> real \<Rightarrow> real \<Rightarrow> real"

definition calculate_length :: "integrator \<Rightarrow> CochleaModel \<Rightarrow> bool \<Rightarrow> real" where
  "calculate_length quad m with_height = quad (integrand m with_height) 0 (c_length m)"

text \<open>
  A quadrature rule given by nodes \<open>t\<close> of the unit interval and their weights \<open>w\<close>,
  applied on the interval from \<open>a\<close> to \<open>b\<close>.
\<close>

definition weighted_sum :: "(real \<times> real) list \<Rightarrow> integrator" where
  "weighted_sum rule f a b = (b - a) * sum_list (map (\<lambda>(t, w). w * f (a + t * (b - a))) rule)"

subsection \<open>\<^verbatim>\<open>save_parameters\<close> and \<^verbatim>\<open>load_parameters\<close>\<close>

text \<open>Decimal digits.\<close>

definition digit_char :: "nat \<Rightarrow> char" where
  "digit_char d = ''0123456789'' ! d"

definition digit_value :: "char \<Rightarrow> nat option" where
  "digit_value c = map_of (zip ''0123456789'' [0 ..< 10]) c"

fun digits_of_nat :: "nat \<Rightarrow> string" where
  "digits_of_nat n =
     (if n < 10 then [digit_char n] else digits_of_nat (n div 10) @ [digit_char (n mod 10)])"

declare digits_of_nat.simps [simp del]

fun fixed_digits :: "nat \<Rightarrow> nat \<Rightarrow> string" where
  "fixed_digits 0 n = []"
| "fixed_digits (Suc k) n = fixed_digits k (n div 10) @ [digit_char (n mod 10)]"

text \<open>
  The conversion \<^verbatim>\<open>'%.6f' % x\<close>: the value is rounded to the nearest multiple of
  \<open>10\<^sup>-\<^sup>6\<close>, a tie going to the even neighbour, and printed with all six decimals.
\<close>

definition format_6f :: "real \<Rightarrow> string" where
  "format_6f x =
     (let n = nat (round_half_even (\<bar>x\<bar> * 10 ^ 6))
      in (if x < 0 then ''-'' else []) @ digits_of_nat (n div 10 ^ 6) @ ''.''
         @ fixed_digits 6 (n mod 10 ^ 6))"

definition newline :: char where
  "newline = CHR 0x0A"

text \<open>
  \<^verbatim>\<open>np.savetxt\<close> of a one-dimensional array: the header after the comment prefix, then
  one value on each line (a one-dimensional array is written as a column, so the
  delimiter never appears).
\<close>

definition savetxt :: "real list \<Rightarrow> string \<Rightarrow> string \<Rightarrow> string" where
  "savetxt X header comments =
     comments @ header @ [newline] @ concat (map (\<lambda>x. format_6f x @ [newline]) X)"

type_synonym files = "string \<rightharpoonup> string"

definition save_parameters :: "real list \<Rightarrow> string \<Rightarrow> files \<Rightarrow> files" where
  "save_parameters parameters filename fs =
     fs (filename \<mapsto> savetxt parameters ''A1, B1, A2, B2'' ''# '')"

text \<open>\<^verbatim>\<open>str.split(sep)\<close> and \<^verbatim>\<open>str.strip()\<close>.\<close>

fun split_on :: "char \<Rightarrow> string \<Rightarrow> string list" where
  "split_on d [] = [[]]"
| "split_on d (c # cs) =
     (if c = d then [] # split_on d cs
      else (case split_on d cs of
              [] \<Rightarrow> [[c]]
            | w # ws \<Rightarrow> (c # w) # ws))"

definition is_space :: "char \<Rightarrow> bool" where
  "is_space c = (c = CHR '' '' \<or> c = CHR 0x09 \<or> c = CHR 0x0A \<or> c = CHR 0x0B
                 \<or> c = CHR 0x0C \<or> c = CHR 0x0D)"

definition strip :: "string \<Rightarrow> string" where
  "strip s = rev (dropWhile is_space (rev (dropWhile is_space s)))"

text \<open>
  \<^verbatim>\<open>float(s)\<close> on fixed-point notation: an optional sign, digits, and an optional
  point followed by digits.  (Exponents, \<^verbatim>\<open>inf\<close> and \<^verbatim>\<open>nan\<close>, which \<^verbatim>\<open>'%.6f'\<close> never
  prints for a finite number of this size, are left out.)
\<close>

fun parse_digits :: "nat \<Rightarrow> string \<Rightarrow> nat option" where
  "parse_digits acc [] = Some acc"
| "parse_digits acc (c # cs) =
     (case digit_value c of
        None \<Rightarrow> None
      | Some d \<Rightarrow> parse_digits (acc * 10 + d) cs)"

definition parse_unsigned :: "string \<Rightarrow> real option" where
  "parse_unsigned s =
     (let ip = takeWhile (\<lambda>c. c \<noteq> CHR ''.'') s;
          rest = dropWhile (\<lambda>c. c \<noteq> CHR ''.'') s;
          fp = tl rest
      in if ip = [] \<and> fp = [] then None
         else (case parse_digits 0 ip of
                 None \<Rightarrow> None
               | Some a \<Rightarrow>
                   (case parse_digits 0 fp of
                      None \<Rightarrow> None
                    | Some b \<Rightarrow> Some (real a + real b / 10 ^ length fp))))"

definition parse_float :: "string \<Rightarrow> real option" where
  "parse_float s =
     (case strip s of
        [] \<Rightarrow> None
      | c # r \<Rightarrow>
          if c = CHR ''-'' then map_option uminus (parse_unsigned r)
          else if c = CHR ''+'' then parse_unsigned r
          else parse_unsigned (c # r))"

text \<open>A numpy array of up to two dimensions.\<close>

datatype ndarray = Array0 real | Array1 "real list" | Array2 "real list list"

fun parse_fields :: "string list \<Rightarrow> error + real list" where
  "parse_fields [] = Inr []"
| "parse_fields (f # fs) =
     (case parse_float f of
        None \<Rightarrow> Inl Numpy_loadtxt_error
      | Some x \<Rightarrow>
          (case parse_fields fs of
             Inl e \<Rightarrow> Inl e
           | Inr xs \<Rightarrow> Inr (x # xs)))"

text \<open>
  The rows of \<^verbatim>\<open>np.loadtxt\<close>: what follows a \<^verbatim>\<open>#\<close> is a comment, a line that is blank
  after that is skipped, the others are split at the delimiter.
\<close>

fun parse_rows :: "char \<Rightarrow> string list \<Rightarrow> error + real list list" where
  "parse_rows delimiter [] = Inr []"
| "parse_rows delimiter (l # ls) =
     (let body = strip (takeWhile (\<lambda>c. c \<noteq> CHR ''#'') l)
      in if body = [] then parse_rows delimiter ls
         else (case parse_fields (split_on delimiter body) of
                 Inl e \<Rightarrow> Inl e
               | Inr row \<Rightarrow>
                   (case parse_rows delimiter ls of
                      Inl e \<Rightarrow> Inl e
                    | Inr rows \<Rightarrow> Inr (row # rows))))"

text \<open>The result of \<^verbatim>\<open>np.loadtxt\<close> drops every axis of length one.\<close>

definition squeeze :: "real list list \<Rightarrow> error + ndarray" where
  "squeeze rows =
     (case rows of
        [] \<Rightarrow> Inr (Array1 [])
      | r # rs \<Rightarrow>
          if \<not> list_all (\<lambda>r'. length r' = length r) rs then Inl Numpy_loadtxt_error
          else if length r = 1 then
            (if rs = [] then Inr (Array0 (hd r)) else Inr (Array1 (map hd rows)))
          else if rs = [] then Inr (Array1 r)
          else Inr (Array2 rows))"

definition loadtxt :: "string \<Rightarrow> char \<Rightarrow> error + ndarray" where
  "loadtxt content delimiter =
     (case parse_rows delimiter (split_on newline content) of
        Inl e \<Rightarrow> Inl e
      | Inr rows \<Rightarrow> squeeze rows)"

definition load_parameters :: "string \<Rightarrow> files \<Rightarrow> error + ndarray" where
  "load_parameters filename fs =
     (case fs filename of
        None \<Rightarrow> Inl FileNotFoundError
      | Some content \<Rightarrow> loadtxt content CHR '',''  )"

section \<open>Properties\<close>

subsection \<open>Helper facts\<close>

lemma validate_four:
  "validate_parameters [a1, b1, a2, b2] =
     (if \<not> (4 \<le> a1 \<and> a1 \<le> 8) then Inl (ValueError_bounds ''A1'' a1 4 8)
      else if \<not> (2.5 \<le> b1 \<and> b1 \<le> 5.5) then Inl (ValueError_bounds ''B1'' b1 2.5 5.5)
      else if \<not> (2 \<le> a2 \<and> a2 \<le> 4.5) then Inl (ValueError_bounds ''A2'' a2 2 4.5)
      else if \<not> (1.5 \<le> b2 \<and> b2 \<le> 4) then Inl (ValueError_bounds ''B2'' b2 1.5 4)
      else Inr True)"
  by (simp add: validate_parameters_def param_names_def bounds_def)

lemma length_four: "length ps = 4 \<Longrightarrow> \<exists>a b c d. ps = [a, b, c, d]"
  by (cases ps; simp; rename_tac x xs; case_tac xs; simp; rename_tac y ys; case_tac ys; simp;
      rename_tac z zs; case_tac zs; simp)

lemma turns_positive:
  assumes "4 \<le> a1" "a1 \<le> 8" "2.5 \<le> b1" "b1 \<le> 5.5" "2 \<le> a2" "a2 \<le> 4.5" "1.5 \<le> b2" "b2 \<le> 4"
  shows "0 < turn_number_estimation [a1, b1, a2, b2]"
  using assms by (simp add: turn_number_estimation_def dot_def coefs_turns_def)

lemma upt_4: "[0 ..< 4] = [0, 1, 2, 3]"
  by (simp add: upt_rec)

lemma replicate_4: "replicate 4 x = [x, x, x, x]"
  by (simp add: numeral_eq_Suc)

lemma generate_random:
  "generate_parameters ''random'' g =
     Inr ([5.97 + 0.36 * g 5, 3.95 + 0.35 * g 7, 3.26 + 0.28 * g 9, 2.85 + 0.33 * g 11],
          advance 12 g)"
  by (simp add: generate_parameters_def random_multivariate_normal_4_def advance_def upt_4
        random_normal_def means_def stds_def Let_def numeral_3_eq_3 numeral_2_eq_2 replicate_4
        add.commute)

subsection \<open>The turn estimate of a valid model\<close>

text \<open>
  C1.  For every parameter vector \<open>(A1, B1, A2, B2)\<close> inside the anatomical bounds the
  constructor succeeds, the total angle \<open>c_length\<close> of the model is strictly positive,
  \<open>n_turns\<close> is \<open>c_length / (2 * pi)\<close>, and \<open>c_length\<close> is the dot product of
  \<open>(1, A1, B1, A2, B2)\<close> with the turns coefficients, divided by 360 and multiplied by
  \<open>2 * pi\<close>.
\<close>

theorem total_angle_positive:
  assumes "4 \<le> a1" "a1 \<le> 8" "2.5 \<le> b1" "b1 \<le> 5.5" "2 \<le> a2" "a2 \<le> 4.5" "1.5 \<le> b2" "b2 \<le> 4"
  shows "CochleaModel_init (Some [a1, b1, a2, b2]) mode g = Inr (derive_model [a1, b1, a2, b2], g)
       \<and> 0 < c_length (derive_model [a1, b1, a2, b2])
       \<and> n_turns (derive_model [a1, b1, a2, b2]) = c_length (derive_model [a1, b1, a2, b2]) / (2 * pi)
       \<and> c_length (derive_model [a1, b1, a2, b2]) = dot [1, a1, b1, a2, b2] coefs_turns / 360 * (2 * pi)"
proof -
  have v: "validate_parameters [a1, b1, a2, b2] = Inr True"
    using assms by (simp add: validate_four)
  have t: "0 < turn_number_estimation [a1, b1, a2, b2]"
    using assms by (rule turns_positive)
  have c: "c_length (derive_model [a1, b1, a2, b2]) = turn_number_estimation [a1, b1, a2, b2] * 2 * pi"
    by (simp add: derive_model_def Let_def)
  have "0 < c_length (derive_model [a1, b1, a2, b2])"
    unfolding c using t pi_gt_zero by simp
  moreover have "CochleaModel_init (Some [a1, b1, a2, b2]) mode g = Inr (derive_model [a1, b1, a2, b2], g)"
    by (simp add: CochleaModel_init_def v)
  moreover have "n_turns (derive_model [a1, b1, a2, b2]) = c_length (derive_model [a1, b1, a2, b2]) / (2 * pi)"
    by (simp add: derive_model_def Let_def)
  moreover have "c_length (derive_model [a1, b1, a2, b2]) = dot [1, a1, b1, a2, b2] coefs_turns / 360 * (2 * pi)"
    unfolding c by (simp add: turn_number_estimation_def)
  ultimately show ?thesis by blast
qed

theorem total_angle_positive_witness:
  "CochleaModel_init (Some [5.97, 3.95, 3.26, 2.85]) ''mean'' (\<lambda>_. 0)
      = Inr (derive_model [5.97, 3.95, 3.26, 2.85], \<lambda>_. 0)
   \<and> 0 < c_length (derive_model [5.97, 3.95, 3.26, 2.85])
   \<and> n_turns (derive_model [5.97, 3.95, 3.26, 2.85]) = c_length (derive_model [5.97, 3.95, 3.26, 2.85]) / (2 * pi)"
  using total_angle_positive [of "5.97" "3.95" "3.26" "2.85" "''mean''" "\<lambda>_. 0"] by simp

subsection \<open>Validation of a parameter vector\<close>

text \<open>
  C10.  \<open>validate_parameters\<close> returns \<open>True\<close> exactly when four values are given and each
  lies within its bounds, end points included; the lower and the upper corner of the
  bounds are accepted.  With another number of values it raises the arity error; with
  four values of which one is out of range it raises the bounds error that carries the
  name, the value and the two bounds of the first offending field.
\<close>

theorem validate_parameters_accepts_iff:
  "(validate_parameters ps = Inr True \<longleftrightarrow>
      length ps = 4 \<and> 4 \<le> ps ! 0 \<and> ps ! 0 \<le> 8 \<and> 2.5 \<le> ps ! 1 \<and> ps ! 1 \<le> 5.5
        \<and> 2 \<le> ps ! 2 \<and> ps ! 2 \<le> 4.5 \<and> 1.5 \<le> ps ! 3 \<and> ps ! 3 \<le> 4)
   \<and> (length ps \<noteq> 4 \<longrightarrow> validate_parameters ps = Inl ValueError_arity)
   \<and> (length ps = 4 \<and> validate_parameters ps \<noteq> Inr True \<longrightarrow>
        (\<exists>i < 4. validate_parameters ps =
                   Inl (ValueError_bounds (param_names ! i) (ps ! i)
                          (fst (snd (bounds ! i))) (snd (snd (bounds ! i))))
               \<and> \<not> (fst (snd (bounds ! i)) \<le> ps ! i \<and> ps ! i \<le> snd (snd (bounds ! i)))
               \<and> (\<forall>j < i. fst (snd (bounds ! j)) \<le> ps ! j \<and> ps ! j \<le> snd (snd (bounds ! j)))))
   \<and> validate_parameters [4.0, 2.5, 2.0, 1.5] = Inr True
   \<and> validate_parameters [8.0, 5.5, 4.5, 4.0] = Inr True"
proof (cases "length ps = 4")
  case False
  then show ?thesis by (simp add: validate_four) (simp add: validate_parameters_def)
next
  case True
  then obtain a b c d where ps: "ps = [a, b, c, d]" using length_four by blast
  have acc: "validate_parameters ps = Inr True \<longleftrightarrow>
      4 \<le> a \<and> a \<le> 8 \<and> 2.5 \<le> b \<and> b \<le> 5.5 \<and> 2 \<le> c \<and> c \<le> 4.5 \<and> 1.5 \<le> d \<and> d \<le> 4"
    unfolding ps validate_four by auto
  have rej: "\<exists>i < 4. validate_parameters ps =
                   Inl (ValueError_bounds (param_names ! i) (ps ! i)
                          (fst (snd (bounds ! i))) (snd (snd (bounds ! i))))
               \<and> \<not> (fst (snd (bounds ! i)) \<le> ps ! i \<and> ps ! i \<le> snd (snd (bounds ! i)))
               \<and> (\<forall>j < i. fst (snd (bounds ! j)) \<le> ps ! j \<and> ps ! j \<le> snd (snd (bounds ! j)))"
    if n: "validate_parameters ps \<noteq> Inr True"
  proof -
    consider (A1) "\<not> (4 \<le> a \<and> a \<le> 8)"
      | (B1) "4 \<le> a \<and> a \<le> 8" "\<not> (2.5 \<le> b \<and> b \<le> 5.5)"
      | (A2) "4 \<le> a \<and> a \<le> 8" "2.5 \<le> b \<and> b \<le> 5.5" "\<not> (2 \<le> c \<and> c \<le> 4.5)"
      | (B2) "4 \<le> a \<and> a \<le> 8" "2.5 \<le> b \<and> b \<le> 5.5" "2 \<le> c \<and> c \<le> 4.5" "\<not> (1.5 \<le> d \<and> d \<le> 4)"
      using n acc by blast
    then show ?thesis
    proof cases
      case A1
      then show ?thesis
        by (intro exI[of _ 0]) (simp add: ps validate_four param_names_def bounds_def)
    next
      case B1
      then show ?thesis
        by (intro exI[of _ 1]) (simp add: ps validate_four param_names_def bounds_def)
    next
      case A2
      then show ?thesis
        by (intro exI[of _ 2])
           (simp add: ps validate_four param_names_def bounds_def less_Suc_eq numeral_2_eq_2)
    next
      case B2
      then show ?thesis
        by (intro exI[of _ 3])
           (simp add: ps validate_four param_names_def bounds_def less_Suc_eq numeral_3_eq_3)
    qed
  qed
  show ?thesis using True acc rej by (simp add: ps validate_four)
qed

theorem validate_parameters_accepts_iff_witness:
  "validate_parameters [3.0, 3.95, 3.26, 2.85] \<noteq> Inr True
   \<and> (\<exists>i < 4. validate_parameters [3.0, 3.95, 3.26, 2.85] =
                Inl (ValueError_bounds (param_names ! i) ([3.0, 3.95, 3.26, 2.85] ! i)
                       (fst (snd (bounds ! i))) (snd (snd (bounds ! i)))))
   \<and> validate_parameters [5.97, 3.95, 3.26] = Inl ValueError_arity"
proof -
  have h: "length [3.0, 3.95, 3.26, 2.85 :: real] = 4
           \<and> validate_parameters [3.0, 3.95, 3.26, 2.85] \<noteq> Inr True"
    by (simp add: validate_four)
  have k: "length [5.97, 3.95, 3.26 :: real] \<noteq> 4" by simp
  from validate_parameters_accepts_iff [of "[3.0, 3.95, 3.26, 2.85]"] h
       validate_parameters_accepts_iff [of "[5.97, 3.95, 3.26]"] k
  show ?thesis by blast
qed

subsection \<open>Construction without explicit parameters\<close>

text \<open>
  C9.  With \<open>parameters = None\<close> and mode \<open>mean\<close> or \<open>random\<close>, the constructor builds the
  model from whatever \<open>generate_parameters\<close> returns, with no validation.  In mode
  \<open>random\<close> the four parameters are independent draws around the means, so a generator
  whose deviates are all 10 gives the model with \<open>A1 = 9.57\<close>, which is a vector that
  \<open>validate_parameters\<close> rejects.  With an explicit vector, an error of
  \<open>validate_parameters\<close> is the error of the constructor.
\<close>

theorem generated_parameters_not_validated:
  "(mode = ''mean'' \<or> mode = ''random'' \<longrightarrow>
      (\<exists>a g'. generate_parameters mode g = Inr (a, g')
             \<and> CochleaModel_init None mode g = Inr (derive_model a, g')))
   \<and> CochleaModel_init None ''random'' g =
       Inr (derive_model [5.97 + 0.36 * g 5, 3.95 + 0.35 * g 7, 3.26 + 0.28 * g 9, 2.85 + 0.33 * g 11],
            advance 12 g)
   \<and> A (fst (projr (CochleaModel_init None ''random'' (\<lambda>_. 10)))) = [9.57, 7.45, 6.06, 6.15]
   \<and> validate_parameters [9.57, 7.45, 6.06, 6.15] = Inl (ValueError_bounds ''A1'' 9.57 4 8)
   \<and> (validate_parameters ps = Inl e \<longrightarrow> CochleaModel_init (Some ps) mode g = Inl e)"
proof -
  have 1: "mode = ''mean'' \<or> mode = ''random'' \<longrightarrow>
      (\<exists>a g'. generate_parameters mode g = Inr (a, g')
             \<and> CochleaModel_init None mode g = Inr (derive_model a, g'))"
  proof
    assume "mode = ''mean'' \<or> mode = ''random''"
    then have "\<exists>r. generate_parameters mode g = Inr r"
      by (auto simp add: generate_parameters_def Let_def)
    then obtain r where r: "generate_parameters mode g = Inr r" ..
    obtain a g' where "r = (a, g')" by (cases r)
    with r show "\<exists>a g'. generate_parameters mode g = Inr (a, g')
             \<and> CochleaModel_init None mode g = Inr (derive_model a, g')"
      by (simp add: CochleaModel_init_def)
  qed
  have 2: "CochleaModel_init None ''random'' g =
       Inr (derive_model [5.97 + 0.36 * g 5, 3.95 + 0.35 * g 7, 3.26 + 0.28 * g 9, 2.85 + 0.33 * g 11],
            advance 12 g)" for g
    by (simp add: CochleaModel_init_def generate_random)
  have 3: "A (fst (projr (CochleaModel_init None ''random'' (\<lambda>_. 10)))) = [9.57, 7.45, 6.06, 6.15]"
    unfolding 2 by (simp add: derive_model_def Let_def)
  have 4: "validate_parameters [9.57, 7.45, 6.06, 6.15] = Inl (ValueError_bounds ''A1'' 9.57 4 8)"
    by (simp add: validate_four)
  have 5: "validate_parameters ps = Inl e \<longrightarrow> CochleaModel_init (Some ps) mode g = Inl e"
    by (simp add: CochleaModel_init_def)
  from 1 2 3 4 5 show ?thesis by blast
qed

theorem generated_parameters_not_validated_witness:
  "(\<exists>a g'. generate_parameters ''mean'' (\<lambda>_. 0) = Inr (a, g')
         \<and> CochleaModel_init None ''mean'' (\<lambda>_. 0) = Inr (derive_model a, g'))
   \<and> CochleaModel_init (Some [9.57, 7.45, 6.06, 6.15]) ''mean'' (\<lambda>_. 0)
       = Inl (ValueError_bounds ''A1'' 9.57 4 8)"
proof -
  have h: "validate_parameters [9.57, 7.45, 6.06, 6.15] = Inl (ValueError_bounds ''A1'' 9.57 4 8)"
    by (simp add: validate_four)
  from generated_parameters_not_validated
         [of "''mean''" "\<lambda>_. 0" "[9.57, 7.45, 6.06, 6.15]" "ValueError_bounds ''A1'' 9.57 4 8"] h
  show ?thesis by blast
qed

subsection \<open>Point queries\<close>

text \<open>
  C2, as stated, fails: \<open>get_point_at_position\<close> has no range check, and at the turn
  fraction 2 it returns the point at twice the total angle.
\<close>

theorem point_query_out_of_range_counterexample:
  "\<not> isl (get_point_at_position (derive_model [5.97, 3.95, 3.26, 2.85]) 2)
   \<and> point_phi (projr (get_point_at_position (derive_model [5.97, 3.95, 3.26, 2.85]) 2))
       = 2 * c_length (derive_model [5.97, 3.95, 3.26, 2.85])"
  by (simp add: get_point_at_position_def Let_def)

text \<open>
  C2, amended.  For every turn fraction, inside \<open>[0, 1]\<close> or not, the query raises
  nothing and returns the position \<open>(r(phi) * cos phi, r(phi) * sin phi, h(phi))\<close> with
  \<open>phi = turn_fraction * c_length\<close>, together with the radius, the height, \<open>phi\<close> and
  \<open>phi / (2 * pi)\<close> turns.
\<close>

theorem point_query_total:
  "get_point_at_position m turn_fraction =
     Inr \<lparr> position = [radius_modiolus_poly m (turn_fraction * c_length m) * cos (turn_fraction * c_length m),
                        radius_modiolus_poly m (turn_fraction * c_length m) * sin (turn_fraction * c_length m),
                        height_poly m (turn_fraction * c_length m)],
           radius_modiolus = radius_modiolus_poly m (turn_fraction * c_length m),
           height = height_poly m (turn_fraction * c_length m),
           point_phi = turn_fraction * c_length m,
           point_turns = turn_fraction * c_length m / (2 * pi) \<rparr>"
  by (simp add: get_point_at_position_def Let_def)

subsection \<open>The frame of an exported cross-section\<close>

lemma norm_sq: "(linalg_norm v)\<^sup>2 = vdot v v"
proof (cases v)
  case (fields x y z)
  have "0 \<le> x\<^sup>2 + y\<^sup>2 + z\<^sup>2" by simp
  then show ?thesis by (simp add: fields power2_eq_square)
qed

lemma norm_one_iff: "linalg_norm v = 1 \<longleftrightarrow> vdot v v = 1"
proof (cases v)
  case (fields x y z)
  show ?thesis by (simp add: fields power2_eq_square)
qed

lemma norm_pos_iff: "0 < linalg_norm v \<longleftrightarrow> 0 < vdot v v"
proof (cases v)
  case (fields x y z)
  show ?thesis by (simp add: fields power2_eq_square)
qed

lemma cross_orth_left: "vdot (cross a b) a = 0"
  by (cases a, cases b) (simp add: algebra_simps)

lemma cross_orth_right: "vdot (cross a b) b = 0"
  by (cases a, cases b) (simp add: algebra_simps)

lemma vdot_commute: "vdot a b = vdot b a"
  by (cases a, cases b) (simp add: algebra_simps)

lemma lagrange: "vdot (cross a b) (cross a b) = vdot a a * vdot b b - (vdot a b)\<^sup>2"
  by (cases a, cases b) (simp add: algebra_simps power2_eq_square)

lemma vdot_vdiv_left: "vdot (vdiv a s) b = vdot a b / s"
  by (cases a, cases b) (simp add: add_divide_distrib)

lemma vdot_vdiv_right: "vdot a (vdiv b s) = vdot a b / s"
  by (cases a, cases b) (simp add: add_divide_distrib)

lemma vdiv_one: "vdiv a 1 = a"
  by (cases a) simp

lemma normalize_unit:
  assumes "0 < vdot p p"
  shows "vdot (vdiv p (linalg_norm p)) (vdiv p (linalg_norm p)) = 1"
proof -
  have "vdot (vdiv p (linalg_norm p)) (vdiv p (linalg_norm p)) = vdot p p / (linalg_norm p)\<^sup>2"
    by (simp add: vdot_vdiv_left vdot_vdiv_right power2_eq_square)
  also have "\<dots> = 1" using assms by (simp add: norm_sq)
  finally show ?thesis .
qed

text \<open>A unit tangent and any raw perpendicular of positive length give an orthonormal pair.\<close>

lemma frame_from_raw:
  assumes t: "vdot t t = 1" and p: "0 < vdot p p" and o: "vdot p t = 0"
  defines "perp1 \<equiv> vdiv p (linalg_norm p)"
  defines "perp2 \<equiv> vdiv (cross t perp1) (linalg_norm (cross t perp1))"
  shows "linalg_norm perp1 = 1 \<and> linalg_norm perp2 = 1 \<and> vdot perp1 t = 0 \<and> vdot perp2 t = 0
         \<and> vdot perp1 perp2 = 0"
proof -
  have u1: "vdot perp1 perp1 = 1" unfolding perp1_def using p by (rule normalize_unit)
  have o1: "vdot perp1 t = 0" unfolding perp1_def by (simp add: vdot_vdiv_left o)
  have "vdot (cross t perp1) (cross t perp1) = 1"
    using u1 o1 t by (simp add: lagrange vdot_commute [of t perp1])
  then have n2: "linalg_norm (cross t perp1) = 1" by (simp add: norm_one_iff)
  then have p2: "perp2 = cross t perp1" by (simp add: perp2_def vdiv_one)
  have "linalg_norm perp1 = 1" using u1 by (simp add: norm_one_iff)
  moreover have "linalg_norm perp2 = 1" using n2 p2 by simp
  moreover have "vdot perp2 t = 0" unfolding p2 by (rule cross_orth_left)
  moreover have "vdot perp1 perp2 = 0"
    unfolding p2 using cross_orth_right [of t perp1] by (simp add: vdot_commute)
  ultimately show ?thesis using o1 by blast
qed

lemma raw_z_branch:
  assumes t: "vdot (x, y, z) (x, y, z) = 1" and z: "\<bar>z\<bar> < 0.9"
  shows "0 < vdot (cross (0, 0, 1) (x, y, z)) (cross (0, 0, 1) (x, y, z))"
proof -
  have "z * z = \<bar>z\<bar> * \<bar>z\<bar>" by simp
  also have "\<dots> < 0.9 * 0.9"
    using z by (intro mult_strict_mono') simp_all
  finally have "z * z < 1" by simp
  then show ?thesis using t by (simp add: algebra_simps)
qed

lemma raw_x_branch:
  assumes t: "vdot (x, y, z) (x, y, z) = 1" and z: "\<not> \<bar>z\<bar> < 0.9"
  shows "0 < vdot (cross (1, 0, 0) (x, y, z)) (cross (1, 0, 0) (x, y, z))"
proof -
  have "0.9 * 0.9 \<le> \<bar>z\<bar> * \<bar>z\<bar>"
    using z by (intro mult_mono) simp_all
  then have "0 < z * z" by simp
  moreover have "0 \<le> y * y" by simp
  ultimately have "0 < y * y + z * z" by linarith
  then show ?thesis by (simp add: algebra_simps)
qed

text \<open>
  C7.  For every tangent of length 1, on either side of the 0.9 threshold on \<open>|z|\<close>, the
  two perpendiculars built by the export have length 1, both are orthogonal to the
  tangent, and they are orthogonal to each other.
\<close>

theorem perpendiculars_orthonormal:
  assumes "linalg_norm t = 1"
  shows "linalg_norm (fst (perpendiculars t)) = 1
       \<and> linalg_norm (snd (perpendiculars t)) = 1
       \<and> vdot (fst (perpendiculars t)) t = 0
       \<and> vdot (snd (perpendiculars t)) t = 0
       \<and> vdot (fst (perpendiculars t)) (snd (perpendiculars t)) = 0"
proof -
  obtain x y z where txyz: "t = (x, y, z)" by (cases t)
  have u: "vdot t t = 1" using assms by (simp add: norm_one_iff)
  show ?thesis
  proof (cases "\<bar>z\<bar> < 0.9")
    case True
    have p: "0 < vdot (cross (0, 0, 1) t) (cross (0, 0, 1) t)"
      using u True unfolding txyz by (rule raw_z_branch)
    have o: "vdot (cross (0, 0, 1) t) t = 0" by (rule cross_orth_right)
    from frame_from_raw [OF u p o] True show ?thesis
      by (simp add: perpendiculars_def Let_def txyz)
  next
    case False
    have p: "0 < vdot (cross (1, 0, 0) t) (cross (1, 0, 0) t)"
      using u False unfolding txyz by (rule raw_x_branch)
    have o: "vdot (cross (1, 0, 0) t) t = 0" by (rule cross_orth_right)
    from frame_from_raw [OF u p o] False show ?thesis
      by (simp add: perpendiculars_def Let_def txyz)
  qed
qed

theorem perpendiculars_orthonormal_witness:
  "linalg_norm (fst (perpendiculars (0.6, 0, 0.8))) = 1
   \<and> linalg_norm (snd (perpendiculars (0.6, 0, 0.8))) = 1
   \<and> vdot (fst (perpendiculars (0.6, 0, 0.8))) (0.6, 0, 0.8) = 0
   \<and> vdot (snd (perpendiculars (0, 0, 1))) (0, 0, 1) = 0
   \<and> vdot (fst (perpendiculars (0, 0, 1))) (snd (perpendiculars (0, 0, 1))) = 0"
proof -
  have a: "linalg_norm (0.6, 0, 0.8) = 1" by (simp add: power2_eq_square)
  have b: "linalg_norm (0, 0, 1) = 1" by simp
  from perpendiculars_orthonormal [OF a] perpendiculars_orthonormal [OF b]
  show ?thesis by blast
qed

subsection \<open>Saving and loading a parameter vector\<close>

lemma upt_10: "[0 ..< 10] = [0, 1, 2, 3, 4, 5, 6, 7, 8, 9]"
  by (simp add: upt_rec)

lemma digit_value_all: "\<forall>d \<in> set [0 ..< 10]. digit_value (digit_char d) = Some d"
  unfolding upt_10 by (simp add: digit_value_def digit_char_def upt_10)

lemma digit_value_char: "d < 10 \<Longrightarrow> digit_value (digit_char d) = Some d"
  using digit_value_all by simp


lemma digit_char_is_digit: "d < 10 \<Longrightarrow> digit_char d \<in> set ''0123456789''"
  unfolding digit_char_def by (rule nth_mem) simp

lemma parse_digits_append:
  "parse_digits acc (xs @ ys) =
     (case parse_digits acc xs of None \<Rightarrow> None | Some a \<Rightarrow> parse_digits a ys)"
  by (induction xs arbitrary: acc) (simp_all split: option.splits)

lemma parse_fixed_digits:
  "parse_digits acc (fixed_digits k n) = Some (acc * 10 ^ k + n mod 10 ^ k)"
proof (induction k arbitrary: n)
  case 0
  show ?case by simp
next
  case (Suc k)
  have m: "n mod (10 * 10 ^ k) = 10 * (n div 10 mod 10 ^ k) + n mod 10"
    by (simp add: mod_mult2_eq)
  show ?case
    by (simp add: parse_digits_append Suc digit_value_char m algebra_simps)
qed

lemma parse_digits_of_nat: "parse_digits 0 (digits_of_nat n) = Some n"
proof (induction n rule: digits_of_nat.induct)
  case (1 n)
  show ?case
  proof (cases "n < 10")
    case True
    then show ?thesis by (subst digits_of_nat.simps) (simp add: digit_value_char)
  next
    case False
    with 1 have "parse_digits 0 (digits_of_nat (n div 10)) = Some (n div 10)" by simp
    with False show ?thesis
      by (subst digits_of_nat.simps) (simp add: parse_digits_append digit_value_char)
  qed
qed

lemma digits_of_nat_chars: "set (digits_of_nat n) \<subseteq> set ''0123456789''"
proof (induction n rule: digits_of_nat.induct)
  case (1 n)
  show ?case
  proof (cases "n < 10")
    case True
    then show ?thesis
      using digit_char_is_digit [of n] by (subst digits_of_nat.simps) simp
  next
    case False
    with 1 have "set (digits_of_nat (n div 10)) \<subseteq> set ''0123456789''" by simp
    with False show ?thesis
      using digit_char_is_digit [of "n mod 10"] by (subst digits_of_nat.simps) simp
  qed
qed

lemma digits_of_nat_nonempty: "digits_of_nat n \<noteq> []"
  by (subst digits_of_nat.simps) simp

lemma fixed_digits_chars: "set (fixed_digits k n) \<subseteq> set ''0123456789''"
proof (induction k arbitrary: n)
  case 0
  show ?case by simp
next
  case (Suc k)
  show ?case using Suc [of "n div 10"] digit_char_is_digit [of "n mod 10"] by simp
qed

lemma length_fixed_digits: "length (fixed_digits k n) = k"
  by (induction k arbitrary: n) simp_all


lemma digit_not_special:
  assumes "c \<in> set ''0123456789''"
  shows "\<not> is_space c" "c \<noteq> CHR ''.''" "c \<noteq> CHR ''#''" "c \<noteq> CHR '',''" "c \<noteq> newline"
        "c \<noteq> CHR ''-''" "c \<noteq> CHR ''+''"
  using assms by (auto simp add: is_space_def newline_def)

lemma strip_no_space:
  assumes "\<forall>c \<in> set s. \<not> is_space c"
  shows "strip s = s"
proof -
  have a: "dropWhile is_space s = s"
    using assms by (cases s) simp_all
  have b: "dropWhile is_space (rev s) = rev s"
    using assms by (cases "rev s") (simp, metis dropWhile.simps(2) list.set_intros(1) set_rev)
  show ?thesis by (simp add: strip_def a b)
qed

lemma round_half_even_nonneg: "0 \<le> x \<Longrightarrow> 0 \<le> round_half_even x"
proof -
  assume "0 \<le> x"
  then have "0 \<le> \<lfloor>x\<rfloor>" by simp
  then show ?thesis by (simp add: round_half_even_def Let_def)
qed

lemma round_half_even_close: "\<bar>of_int (round_half_even x) - x\<bar> \<le> 1 / 2"
proof -
  have "of_int \<lfloor>x\<rfloor> \<le> x" "x < of_int \<lfloor>x\<rfloor> + 1" by linarith+
  then show ?thesis by (simp add: round_half_even_def Let_def)
qed

text \<open>The text of a number that is not negative: digits, a point, six digits.\<close>

lemma format_6f_shape:
  assumes "0 \<le> x"
  shows "format_6f x = digits_of_nat (nat (round_half_even (x * 10 ^ 6)) div 10 ^ 6) @ CHR ''.'' #
           fixed_digits 6 (nat (round_half_even (x * 10 ^ 6)) mod 10 ^ 6)"
  using assms by (simp add: format_6f_def Let_def)

lemma format_6f_chars:
  assumes "0 \<le> x" and "c \<in> set (format_6f x)"
  shows "c \<in> set ''0123456789'' \<or> c = CHR ''.''"
proof -
  from assms have "c \<in> set (digits_of_nat (nat (round_half_even (x * 10 ^ 6)) div 10 ^ 6))
      \<or> c = CHR ''.'' \<or> c \<in> set (fixed_digits 6 (nat (round_half_even (x * 10 ^ 6)) mod 10 ^ 6))"
    unfolding format_6f_shape [OF assms(1)] by auto
  then show ?thesis
    using digits_of_nat_chars [of "nat (round_half_even (x * 10 ^ 6)) div 10 ^ 6"]
          fixed_digits_chars [of 6 "nat (round_half_even (x * 10 ^ 6)) mod 10 ^ 6"]
    by blast
qed

lemma format_6f_plain:
  assumes "0 \<le> x" and "c \<in> set (format_6f x)"
  shows "\<not> is_space c" "c \<noteq> CHR ''#''" "c \<noteq> CHR '',''" "c \<noteq> newline"
proof -
  from format_6f_chars [OF assms] show "\<not> is_space c"
    using digit_not_special(1) by (auto simp add: is_space_def)
  from format_6f_chars [OF assms] show "c \<noteq> CHR ''#''"
    using digit_not_special(3) by auto
  from format_6f_chars [OF assms] show "c \<noteq> CHR '',''"
    using digit_not_special(4) by auto
  from format_6f_chars [OF assms] show "c \<noteq> newline"
    using digit_not_special(5) by (auto simp add: newline_def)
qed

lemma format_6f_nonempty: "format_6f x \<noteq> []"
  by (simp add: format_6f_def Let_def)

lemma parse_unsigned_point:
  assumes ip: "set ip \<subseteq> set ''0123456789''" and ne: "ip \<noteq> []"
      and a: "parse_digits 0 ip = Some a" and b: "parse_digits 0 fp = Some b"
  shows "parse_unsigned (ip @ CHR ''.'' # fp) = Some (real a + real b / 10 ^ length fp)"
proof -
  have nd: "\<And>c. c \<in> set ip \<Longrightarrow> c \<noteq> CHR ''.''"
    using ip digit_not_special(2) by blast
  have t: "takeWhile (\<lambda>c. c \<noteq> CHR ''.'') (ip @ CHR ''.'' # fp) = ip"
    using nd by (simp add: takeWhile_append2)
  have d: "dropWhile (\<lambda>c. c \<noteq> CHR ''.'') (ip @ CHR ''.'' # fp) = CHR ''.'' # fp"
    using nd by (simp add: dropWhile_append2)
  show ?thesis
    unfolding parse_unsigned_def t d using ne a b by (simp add: Let_def)
qed

lemma parse_float_format_6f:
  assumes "0 \<le> x"
  shows "parse_float (format_6f x) = Some (real_of_int (round_half_even (x * 10 ^ 6)) / 10 ^ 6)"
proof -
  define n where "n = nat (round_half_even (x * 10 ^ 6))"
  define ip where "ip = digits_of_nat (n div 10 ^ 6)"
  define fp where "fp = fixed_digits 6 (n mod 10 ^ 6)"
  have f: "format_6f x = ip @ CHR ''.'' # fp"
    using assms by (simp add: format_6f_shape n_def ip_def fp_def)
  have ipd: "set ip \<subseteq> set ''0123456789''" unfolding ip_def by (rule digits_of_nat_chars)
  have ipn: "ip \<noteq> []" unfolding ip_def by (rule digits_of_nat_nonempty)
  have pa: "parse_digits 0 ip = Some (n div 10 ^ 6)" unfolding ip_def by (rule parse_digits_of_nat)
  have pb: "parse_digits 0 fp = Some (n mod 10 ^ 6)"
    unfolding fp_def by (simp add: parse_fixed_digits)
  have lf: "length fp = 6" unfolding fp_def by (rule length_fixed_digits)
  have pu: "parse_unsigned (format_6f x) = Some (real (n div 10 ^ 6) + real (n mod 10 ^ 6) / 10 ^ 6)"
    unfolding f using parse_unsigned_point [OF ipd ipn pa pb] by (simp add: lf)
  have st: "strip (format_6f x) = format_6f x"
    using format_6f_plain(1) [OF assms] by (intro strip_no_space) blast
  obtain c r where cr: "ip = c # r" using ipn by (cases ip) auto
  have cd: "c \<in> set ''0123456789''" using ipd cr by auto
  have pf: "parse_float (format_6f x) = parse_unsigned (format_6f x)"
    unfolding parse_float_def st
    using digit_not_special(6,7) [OF cd] by (simp add: f cr)
  have "real (n div 10 ^ 6) + real (n mod 10 ^ 6) / 10 ^ 6 = real n / 10 ^ 6"
  proof -
    have "n = (n div 10 ^ 6) * 10 ^ 6 + n mod 10 ^ 6" by simp
    then have "real n = real (n div 10 ^ 6) * 10 ^ 6 + real (n mod 10 ^ 6)"
      by (metis of_nat_add of_nat_mult of_nat_numeral of_nat_power)
    then show ?thesis by (simp add: field_simps)
  qed
  moreover have "real n = real_of_int (round_half_even (x * 10 ^ 6))"
    unfolding n_def using assms round_half_even_nonneg [of "x * 10 ^ 6"] by simp
  ultimately show ?thesis using pf pu by simp
qed


lemma split_on_first:
  assumes "d \<notin> set a"
  shows "split_on d (a @ d # rest) = a # split_on d rest"
  using assms by (induction a) auto

lemma split_on_none:
  assumes "d \<notin> set a"
  shows "split_on d a = [a]"
  using assms by (induction a) auto

lemma format_6f_no_newline: "0 \<le> x \<Longrightarrow> newline \<notin> set (format_6f x)"
  using format_6f_plain(4) by blast

lemma split_value_lines:
  assumes "\<forall>x \<in> set xs. 0 \<le> x"
  shows "split_on newline (concat (map (\<lambda>x. format_6f x @ [newline]) xs)) = map format_6f xs @ [[]]"
  using assms
proof (induction xs)
  case Nil
  show ?case by simp
next
  case (Cons x xs)
  have "newline \<notin> set (format_6f x)" using Cons.prems by (simp add: format_6f_no_newline)
  then have "split_on newline (format_6f x @ newline # concat (map (\<lambda>x. format_6f x @ [newline]) xs))
      = format_6f x # split_on newline (concat (map (\<lambda>x. format_6f x @ [newline]) xs))"
    by (rule split_on_first)
  then show ?case using Cons by simp
qed

lemma split_savetxt:
  assumes "\<forall>x \<in> set xs. 0 \<le> x"
  shows "split_on newline (savetxt xs ''A1, B1, A2, B2'' ''# '')
         = ''# A1, B1, A2, B2'' # map format_6f xs @ [[]]"
proof -
  have "newline \<notin> set ''# A1, B1, A2, B2''" by (simp add: newline_def)
  then have "split_on newline (''# A1, B1, A2, B2'' @ newline # concat (map (\<lambda>x. format_6f x @ [newline]) xs))
        = ''# A1, B1, A2, B2'' # split_on newline (concat (map (\<lambda>x. format_6f x @ [newline]) xs))"
    by (rule split_on_first)
  then show ?thesis using split_value_lines [OF assms] by (simp add: savetxt_def)
qed

lemma parse_row_of_value:
  assumes "0 \<le> x"
  shows "strip (takeWhile (\<lambda>c. c \<noteq> CHR ''#'') (format_6f x)) = format_6f x"
    and "parse_fields (split_on CHR '','' (format_6f x))
           = Inr [real_of_int (round_half_even (x * 10 ^ 6)) / 10 ^ 6]"
proof -
  have tw: "takeWhile (\<lambda>c. c \<noteq> CHR ''#'') (format_6f x) = format_6f x"
    using format_6f_plain(2) [OF assms] by (simp add: takeWhile_eq_all_conv)
  have st: "strip (format_6f x) = format_6f x"
    using format_6f_plain(1) [OF assms] by (intro strip_no_space) blast
  show "strip (takeWhile (\<lambda>c. c \<noteq> CHR ''#'') (format_6f x)) = format_6f x"
    unfolding tw by (rule st)
  have "CHR '','' \<notin> set (format_6f x)" using format_6f_plain(3) [OF assms] by blast
  then have "split_on CHR '','' (format_6f x) = [format_6f x]" by (rule split_on_none)
  then show "parse_fields (split_on CHR '','' (format_6f x))
           = Inr [real_of_int (round_half_even (x * 10 ^ 6)) / 10 ^ 6]"
    by (simp add: parse_float_format_6f [OF assms])
qed

lemma parse_value_rows:
  assumes "\<forall>x \<in> set xs. 0 \<le> x"
  shows "parse_rows CHR '','' (map format_6f xs @ [[]])
         = Inr (map (\<lambda>x. [real_of_int (round_half_even (x * 10 ^ 6)) / 10 ^ 6]) xs)"
  using assms
proof (induction xs)
  case Nil
  show ?case by (simp add: strip_def)
next
  case (Cons x xs)
  have x: "0 \<le> x" using Cons.prems by simp
  show ?case
    using Cons by (simp add: parse_row_of_value [OF x] format_6f_nonempty Let_def)
qed

lemma loadtxt_savetxt:
  assumes nn: "\<forall>x \<in> set xs. 0 \<le> x" and len: "2 \<le> length xs"
  shows "loadtxt (savetxt xs ''A1, B1, A2, B2'' ''# '') CHR '',''
         = Inr (Array1 (map (\<lambda>x. real_of_int (round_half_even (x * 10 ^ 6)) / 10 ^ 6) xs))"
proof -
  have h: "strip (takeWhile (\<lambda>c. c \<noteq> CHR ''#'') ''# A1, B1, A2, B2'') = []"
    by (simp add: strip_def)
  have rows: "parse_rows CHR '','' (split_on newline (savetxt xs ''A1, B1, A2, B2'' ''# ''))
         = Inr (map (\<lambda>x. [real_of_int (round_half_even (x * 10 ^ 6)) / 10 ^ 6]) xs)"
    unfolding split_savetxt [OF nn]
    using parse_value_rows [OF nn] h by (simp add: Let_def del: takeWhile.simps)
  obtain a b r where xs: "xs = a # b # r"
    using len by (cases xs; simp; rename_tac y ys; case_tac ys; simp)
  have "squeeze (map (\<lambda>x. [real_of_int (round_half_even (x * 10 ^ 6)) / 10 ^ 6]) xs)
         = Inr (Array1 (map (\<lambda>x. real_of_int (round_half_even (x * 10 ^ 6)) / 10 ^ 6) xs))"
    by (simp add: squeeze_def xs list_all_iff comp_def)
  then show ?thesis by (simp add: loadtxt_def rows)
qed

text \<open>
  C8.  For every parameter vector that \<open>validate_parameters\<close> accepts, loading the file
  that \<open>save_parameters\<close> wrote gives the four values in the same order, each rounded to
  six decimals as it was written, which is within \<open>0.0000005\<close> of the value saved.
\<close>

theorem save_load_roundtrip:
  assumes "validate_parameters ps = Inr True"
  shows "load_parameters filename (save_parameters ps filename fs)
           = Inr (Array1 (map (\<lambda>x. real_of_int (round_half_even (x * 10 ^ 6)) / 10 ^ 6) ps))
       \<and> length ps = 4
       \<and> (\<forall>i < 4. \<bar>real_of_int (round_half_even (ps ! i * 10 ^ 6)) / 10 ^ 6 - ps ! i\<bar> \<le> 5 / 10 ^ 7)"
proof -
  have len: "length ps = 4"
    using assms by (simp add: validate_parameters_def split: if_splits)
  then obtain a b c d where ps: "ps = [a, b, c, d]" using length_four by blast
  have "4 \<le> a \<and> 2.5 \<le> b \<and> 2 \<le> c \<and> 1.5 \<le> d"
    using assms unfolding ps validate_four by (simp split: if_splits)
  then have nn: "\<forall>x \<in> set ps. 0 \<le> x" by (simp add: ps)
  have "2 \<le> length ps" using len by simp
  with nn have "loadtxt (savetxt ps ''A1, B1, A2, B2'' ''# '') CHR '',''
         = Inr (Array1 (map (\<lambda>x. real_of_int (round_half_even (x * 10 ^ 6)) / 10 ^ 6) ps))"
    by (rule loadtxt_savetxt)
  then have 1: "load_parameters filename (save_parameters ps filename fs)
           = Inr (Array1 (map (\<lambda>x. real_of_int (round_half_even (x * 10 ^ 6)) / 10 ^ 6) ps))"
    by (simp add: load_parameters_def save_parameters_def)
  have 2: "\<bar>real_of_int (round_half_even (x * 10 ^ 6)) / 10 ^ 6 - x\<bar> \<le> 5 / 10 ^ 7" for x :: real
  proof -
    have "\<bar>real_of_int (round_half_even (x * 10 ^ 6)) - x * 10 ^ 6\<bar> \<le> 1 / 2"
      by (rule round_half_even_close)
    then show ?thesis by (simp add: field_simps abs_le_iff)
  qed
  from 1 2 len show ?thesis by blast
qed

theorem save_load_roundtrip_witness:
  "load_parameters ''parameters.txt'' (save_parameters [5.97, 3.95, 3.26, 2.85] ''parameters.txt'' Map.empty)
     = Inr (Array1 [5.97, 3.95, 3.26, 2.85])"
proof -
  have h: "validate_parameters [5.97, 3.95, 3.26, 2.85] = Inr True"
    by (simp add: validate_four)
  from save_load_roundtrip [OF h, of "''parameters.txt''" Map.empty]
  show ?thesis by (simp add: round_half_even_def Let_def)
qed

subsection \<open>Rounding to float64\<close>

lemma round_half_even_of_int: "round_half_even (of_int k) = k"
  by (simp add: round_half_even_def Let_def)

lemma round_half_even_mono:
  assumes "x \<le> y"
  shows "round_half_even x \<le> round_half_even y"
proof (cases "\<lfloor>x\<rfloor> = \<lfloor>y\<rfloor>")
  case True
  then show ?thesis using assms by (simp add: round_half_even_def Let_def)
next
  case False
  have "\<lfloor>x\<rfloor> \<le> \<lfloor>y\<rfloor>" using assms by (rule floor_mono)
  with False have "\<lfloor>x\<rfloor> + 1 \<le> \<lfloor>y\<rfloor>" by simp
  moreover have "round_half_even x \<le> \<lfloor>x\<rfloor> + 1" by (simp add: round_half_even_def Let_def)
  moreover have "\<lfloor>y\<rfloor> \<le> round_half_even y" by (simp add: round_half_even_def Let_def)
  ultimately show ?thesis by linarith
qed

lemma round_half_even_minus: "round_half_even (- x) = - round_half_even x"
proof (cases "x = of_int \<lfloor>x\<rfloor>")
  case True
  then have "round_half_even (- x) = round_half_even (of_int (- \<lfloor>x\<rfloor>))" by simp
  also have "\<dots> = - \<lfloor>x\<rfloor>" by (rule round_half_even_of_int)
  also have "\<dots> = - round_half_even (of_int \<lfloor>x\<rfloor>)" by (simp only: round_half_even_of_int)
  finally show ?thesis using True by simp
next
  case False
  define f where "f = \<lfloor>x\<rfloor>"
  have "of_int \<lfloor>x\<rfloor> \<le> x" by (rule of_int_floor_le)
  with False have lo: "of_int f < x" unfolding f_def by linarith
  have hi: "x < of_int f + 1" unfolding f_def by linarith
  have fm: "\<lfloor>- x\<rfloor> = - f - 1"
    using lo hi by (intro floor_unique) simp_all
  have par: "even (- f - 1) \<longleftrightarrow> odd f" by simp
  consider (below) "x - of_int f < 1 / 2" | (tie) "x - of_int f = 1 / 2" | (above) "1 / 2 < x - of_int f"
    by linarith
  then show ?thesis
  proof cases
    case below
    then show ?thesis
      unfolding round_half_even_def Let_def fm f_def [symmetric] by simp
  next
    case tie
    then have t: "- x - of_int (- f - 1) = 1 / 2" by simp
    show ?thesis
      unfolding round_half_even_def Let_def fm f_def [symmetric] t tie par by simp
  next
    case above
    then show ?thesis
      unfolding round_half_even_def Let_def fm f_def [symmetric] by simp
  qed
qed

lemma two_powi_pos: "0 < (2::real) powi e"
  by simp

lemma two_powi_mono: "a \<le> b \<Longrightarrow> (2::real) powi a \<le> 2 powi b"
  by (rule power_int_increasing) simp_all

lemma two_powi_strict: "a < b \<Longrightarrow> (2::real) powi a < 2 powi b"
  by (rule power_int_strict_increasing) simp_all

lemma two_powi_Suc: "(2::real) powi (e + 1) = 2 * 2 powi e"
  by (simp add: power_int_add)

lemma expo_bounds:
  assumes "x \<noteq> 0"
  shows "2 powi expo x \<le> \<bar>x\<bar>" and "\<bar>x\<bar> < 2 powi (expo x + 1)"
proof -
  have "2 powi expo x \<le> \<bar>x\<bar> \<and> \<bar>x\<bar> < 2 powi (expo x + 1)"
  proof (cases "1 \<le> \<bar>x\<bar>")
    case True
    define m where "m = \<lfloor>\<bar>x\<bar>\<rfloor>"
    have mpos: "0 < m" using True by (simp add: m_def)
    have e: "expo x = bitlen m - 1" using True by (simp add: expo_def m_def)
    have b1: "2 ^ nat (bitlen m - 1) \<le> m" and b2: "m < 2 ^ nat (bitlen m)"
      using bitlen_bounds [OF mpos] by simp_all
    have bl: "1 \<le> bitlen m" using mpos by (simp add: bitlen_alt_def)
    have "real_of_int (2 ^ nat (bitlen m - 1)) \<le> real_of_int m" using b1 by (simp only: of_int_le_iff)
    also have "real_of_int m \<le> \<bar>x\<bar>" by (simp add: m_def)
    finally have lo: "2 powi expo x \<le> \<bar>x\<bar>"
      using bl by (simp add: e power_int_nonneg_exp)
    have "m + 1 \<le> 2 ^ nat (bitlen m)" using b2 by simp
    then have "real_of_int (m + 1) \<le> real_of_int (2 ^ nat (bitlen m))" by (simp only: of_int_le_iff)
    moreover have "\<bar>x\<bar> < real_of_int (m + 1)" by (simp add: m_def)
    ultimately have "\<bar>x\<bar> < 2 ^ nat (bitlen m)" by simp
    then have hi: "\<bar>x\<bar> < 2 powi (expo x + 1)"
      using bl by (simp add: e power_int_nonneg_exp)
    from lo hi show ?thesis ..
  next
    case False
    define y where "y = 1 / \<bar>x\<bar>"
    define m where "m = \<lceil>y\<rceil>"
    define k where "k = bitlen (m - 1)"
    have xp: "0 < \<bar>x\<bar>" using assms by simp
    have y1: "1 < y" using False xp by (simp add: y_def)
    have m2: "2 \<le> m" using y1 by (simp add: m_def)
    have e: "expo x = - k" using False by (simp add: expo_def k_def m_def y_def)
    have mpos: "0 < m - 1" using m2 by simp
    have b1: "2 ^ nat (k - 1) \<le> m - 1" and b2: "m - 1 < 2 ^ nat k"
      using bitlen_bounds [OF mpos] by (simp_all add: k_def)
    have k1: "1 \<le> k" using mpos by (simp add: k_def bitlen_alt_def)
    have "m \<le> 2 ^ nat k" using b2 by simp
    then have "real_of_int m \<le> real_of_int (2 ^ nat k)" by (simp only: of_int_le_iff)
    then have "real_of_int m \<le> 2 ^ nat k" by simp
    moreover have "y \<le> real_of_int m" by (simp add: m_def)
    ultimately have yk: "y \<le> 2 ^ nat k" by linarith
    have "real_of_int (2 ^ nat (k - 1)) \<le> real_of_int (m - 1)" using b1 by (simp only: of_int_le_iff)
    then have "2 ^ nat (k - 1) \<le> real_of_int (m - 1)" by simp
    moreover have "real_of_int (m - 1) < y" unfolding m_def by simp linarith
    ultimately have yk1: "2 ^ nat (k - 1) < y" by linarith
    have p: "(2::real) powi (- k) = 1 / 2 ^ nat k"
      using k1 by (simp add: power_int_minus_divide power_int_nonneg_exp)
    have q: "(2::real) powi (- k + 1) = 1 / 2 ^ nat (k - 1)"
    proof -
      have "- k + 1 = - (k - 1)" by simp
      then show ?thesis using k1 by (simp only: power_int_minus_divide) (simp add: power_int_nonneg_exp)
    qed
    have lo: "2 powi expo x \<le> \<bar>x\<bar>"
      unfolding e p using yk xp by (simp add: y_def field_simps)
    have hi: "\<bar>x\<bar> < 2 powi (expo x + 1)"
      unfolding e q using yk1 xp by (simp add: y_def field_simps)
    from lo hi show ?thesis ..
  qed
  then show "2 powi expo x \<le> \<bar>x\<bar>" and "\<bar>x\<bar> < 2 powi (expo x + 1)" by simp_all
qed

lemma expo_unique:
  assumes lo: "2 powi e \<le> \<bar>x\<bar>" and hi: "\<bar>x\<bar> < 2 powi (e + 1)"
  shows "expo x = e"
proof -
  have "0 < \<bar>x\<bar>" using lo two_powi_pos [of e] by linarith
  then have x0: "x \<noteq> 0" by simp
  have a: "\<not> expo x < e"
  proof
    assume "expo x < e"
    then have "expo x + 1 \<le> e" by simp
    then have "(2::real) powi (expo x + 1) \<le> 2 powi e" by (rule two_powi_mono)
    with expo_bounds(2) [OF x0] lo show False by linarith
  qed
  have b: "\<not> e < expo x"
  proof
    assume "e < expo x"
    then have "e + 1 \<le> expo x" by simp
    then have "(2::real) powi (e + 1) \<le> 2 powi expo x" by (rule two_powi_mono)
    with expo_bounds(1) [OF x0] hi show False by linarith
  qed
  from a b show ?thesis by simp
qed

lemma expo_minus: "expo (- x) = expo x"
  by (simp add: expo_def)


lemma fl_zero: "fl 0 = 0"
  by (simp add: fl_def)

lemma fl_minus: "fl (- x) = - fl x"
  by (simp add: fl_def Let_def expo_minus round_half_even_minus)

text \<open>The scaled significand of a positive number lies between \<open>2^52\<close> and \<open>2^53\<close>.\<close>

lemma significand_bounds:
  assumes "0 < x"
  shows "2 ^ 52 \<le> x / 2 powi (expo x - 52)" and "x / 2 powi (expo x - 52) < 2 ^ 53"
proof -
  have x0: "x \<noteq> 0" using assms by simp
  have u: "(2::real) powi (expo x - 52) = 2 powi expo x / 2 ^ 52"
    by (simp add: power_int_diff)
  have lo: "2 powi expo x \<le> x" using expo_bounds(1) [OF x0] assms by simp
  have hi: "x < 2 * 2 powi expo x" using expo_bounds(2) [OF x0] assms by (simp add: two_powi_Suc)
  have p: "0 < (2::real) powi expo x" by simp
  show "2 ^ 52 \<le> x / 2 powi (expo x - 52)"
    unfolding u using lo p by (simp add: field_simps)
  show "x / 2 powi (expo x - 52) < 2 ^ 53"
    unfolding u using hi p by (simp add: field_simps)
qed

lemma rounded_significand_bounds:
  assumes "0 < x"
  shows "2 ^ 52 \<le> round_half_even (x / 2 powi (expo x - 52))"
    and "round_half_even (x / 2 powi (expo x - 52)) \<le> 2 ^ 53"
proof -
  have "round_half_even (of_int (2 ^ 52)) \<le> round_half_even (x / 2 powi (expo x - 52))"
    using significand_bounds(1) [OF assms] by (intro round_half_even_mono) simp
  then show "2 ^ 52 \<le> round_half_even (x / 2 powi (expo x - 52))"
    by (simp only: round_half_even_of_int)
  have "round_half_even (x / 2 powi (expo x - 52)) \<le> round_half_even (of_int (2 ^ 53))"
    using significand_bounds(2) [OF assms] by (intro round_half_even_mono) simp
  then show "round_half_even (x / 2 powi (expo x - 52)) \<le> 2 ^ 53"
    by (simp only: round_half_even_of_int)
qed

lemma fl_pos_eq:
  assumes "0 < x"
  shows "fl x = of_int (round_half_even (x / 2 powi (expo x - 52))) * 2 powi (expo x - 52)"
  using assms by (simp add: fl_def Let_def)

lemma fl_pos_bounds:
  assumes "0 < x"
  shows "2 powi expo x \<le> fl x" and "fl x \<le> 2 powi (expo x + 1)"
proof -
  define u :: real where "u = 2 powi (expo x - 52)"
  define k where "k = round_half_even (x / u)"
  have up: "0 < u" by (simp add: u_def)
  have f: "fl x = of_int k * u" using fl_pos_eq [OF assms] by (simp add: k_def u_def)
  have k1: "2 ^ 52 \<le> k" and k2: "k \<le> 2 ^ 53"
    using rounded_significand_bounds [OF assms] by (simp_all add: k_def u_def)
  have a: "(2::real) powi expo x = 2 ^ 52 * u" by (simp add: u_def power_int_diff)
  have b: "(2::real) powi (expo x + 1) = 2 ^ 53 * u" by (simp add: u_def power_int_diff two_powi_Suc)
  have "(2::real) ^ 52 \<le> of_int k" using k1 by (metis of_int_le_iff of_int_numeral of_int_power)
  then show "2 powi expo x \<le> fl x" unfolding f a using up by simp
  have "of_int k \<le> (2::real) ^ 53" using k2 by (metis of_int_le_iff of_int_numeral of_int_power)
  then show "fl x \<le> 2 powi (expo x + 1)" unfolding f b using up by simp
qed

lemma fl_pos: "0 < x \<Longrightarrow> 0 < fl x"
  using fl_pos_bounds(1) [of x] two_powi_pos [of "expo x"] by linarith

lemma fl_nonneg: "0 \<le> x \<Longrightarrow> 0 \<le> fl x"
  using fl_pos [of x] by (cases "x = 0") (simp_all add: fl_zero less_le)

lemma fl_nonpos: "x \<le> 0 \<Longrightarrow> fl x \<le> 0"
  using fl_nonneg [of "- x"] by (simp add: fl_minus)



lemma fl_of_scaled_int:
  assumes k1: "2 ^ 52 \<le> k" and k2: "k \<le> 2 ^ 53"
  shows "fl (of_int k * 2 powi e) = of_int k * 2 powi e"
proof (cases "k = 2 ^ 53")
  case True
  define z :: real where "z = 2 powi (e + 53)"
  have zp: "0 < z" by (simp add: z_def)
  have v: "real_of_int k * 2 powi e = z" by (simp add: True z_def power_int_add)
  have "z < 2 powi (e + 53 + 1)" unfolding z_def by (rule two_powi_strict) simp
  then have ex: "expo z = e + 53"
    by (intro expo_unique) (simp_all add: z_def)
  have s: "e + 53 - 52 = e + 1" by simp
  have "(2::real) powi ((e + 1) + 52) = 2 powi (e + 1) * 2 powi 52"
    by (rule power_int_add) simp
  then have w: "z = 2 powi (e + 1) * of_int (2 ^ 52)"
    by (simp add: z_def add.commute add.left_commute)
  have q: "z / 2 powi (e + 1) = of_int (2 ^ 52)"
    unfolding w by simp
  have "fl z = of_int (round_half_even (z / 2 powi (expo z - 52))) * 2 powi (expo z - 52)"
    using zp by (rule fl_pos_eq)
  also have "\<dots> = of_int (round_half_even (z / 2 powi (e + 1))) * 2 powi (e + 1)"
    by (simp only: ex s)
  also have "\<dots> = of_int (2 ^ 52) * 2 powi (e + 1)"
    by (simp only: q round_half_even_of_int)
  also have "\<dots> = z" unfolding w by simp
  finally show ?thesis by (simp only: v)
next
  case False
  with k2 have k3: "k < 2 ^ 53" by simp
  define x where "x = real_of_int k * 2 powi e"
  have r1: "(2::real) ^ 52 \<le> of_int k" using k1 by (metis of_int_le_iff of_int_numeral of_int_power)
  have r2: "of_int k < (2::real) ^ 53" using k3 by (metis of_int_less_iff of_int_numeral of_int_power)
  have xp: "0 < x" using r1 by (simp add: x_def zero_less_mult_iff) 
  have lo: "2 powi (e + 52) \<le> \<bar>x\<bar>"
    using r1 by (simp add: x_def power_int_add abs_mult mult.commute)
  have hi: "\<bar>x\<bar> < 2 powi (e + 52 + 1)"
    using r1 r2 by (simp add: x_def power_int_add abs_mult mult.commute)
  have ex: "expo x = e + 52" using lo hi by (rule expo_unique)
  have "x / 2 powi (e + 52 - 52) = of_int k" by (simp add: x_def)
  then have q: "x / 2 powi (expo x - 52) = of_int k" by (simp only: ex)
  have r: "round_half_even (x / 2 powi (expo x - 52)) = k"
    by (simp only: q round_half_even_of_int)
  have "fl x = of_int (round_half_even (x / 2 powi (expo x - 52))) * 2 powi (expo x - 52)"
    using xp by (rule fl_pos_eq)
  also have "\<dots> = of_int k * 2 powi (expo x - 52)" by (simp only: r)
  also have "\<dots> = of_int k * 2 powi (e + 52 - 52)" by (simp only: ex)
  also have "\<dots> = x" by (simp add: x_def)
  finally show ?thesis by (simp only: x_def)
qed

lemma fl_idem: "fl (fl x) = fl x"
proof -
  have pos: "fl (fl x) = fl x" if "0 < x" for x
  proof -
    have "fl (of_int (round_half_even (x / 2 powi (expo x - 52))) * 2 powi (expo x - 52))
          = of_int (round_half_even (x / 2 powi (expo x - 52))) * 2 powi (expo x - 52)"
      using rounded_significand_bounds [OF that] by (rule fl_of_scaled_int)
    then show ?thesis by (simp add: fl_pos_eq [OF that])
  qed
  consider "0 < x" | "x = 0" | "0 < - x" by linarith
  then show ?thesis
  proof cases
    case 1
    then show ?thesis by (rule pos)
  next
    case 2
    then show ?thesis by (simp add: fl_zero)
  next
    case 3
    then have "fl (fl (- x)) = fl (- x)" by (rule pos)
    then show ?thesis by (simp add: fl_minus)
  qed
qed

lemma fl_close_pos:
  assumes "0 < x"
  shows "x / 2 \<le> fl x" and "fl x \<le> 2 * x"
proof -
  define u :: real where "u = 2 powi (expo x - 52)"
  define y where "y = x / u"
  have up: "0 < u" by (simp add: u_def)
  have "2 ^ 52 \<le> y" using significand_bounds(1) [OF assms] unfolding y_def u_def .
  moreover have "(1::real) \<le> 2 ^ 52" by simp
  ultimately have y1: "1 \<le> y" by linarith
  have c: "\<bar>of_int (round_half_even y) - y\<bar> \<le> 1 / 2" by (rule round_half_even_close)
  have f: "fl x = of_int (round_half_even y) * u" using fl_pos_eq [OF assms] by (simp add: y_def u_def)
  have x: "x = y * u" using up by (simp add: y_def)
  have "y / 2 \<le> of_int (round_half_even y)" using c y1 by linarith
  then have "y / 2 * u \<le> of_int (round_half_even y) * u" using up by simp
  then show "x / 2 \<le> fl x" unfolding f by (simp add: x)
  have "of_int (round_half_even y) \<le> 2 * y" using c y1 by linarith
  then have "of_int (round_half_even y) * u \<le> 2 * y * u" using up by simp
  then show "fl x \<le> 2 * x" unfolding f by (simp add: x)
qed

subsection \<open>The length and the entries of \<^verbatim>\<open>np.arange\<close>\<close>

lemma mean_c_length_pos: "0 < c_length (derive_model [5.97, 3.95, 3.26, 2.85])"
  by (simp add: derive_model_def Let_def turn_number_estimation_def dot_def coefs_turns_def)

lemma mean_c_length_bounds:
  "4 \<le> c_length (derive_model [5.97, 3.95, 3.26, 2.85])"
  "c_length (derive_model [5.97, 3.95, 3.26, 2.85]) \<le> 24"
proof -
  have c: "c_length (derive_model [5.97, 3.95, 3.26, 2.85])
             = turn_number_estimation [5.97, 3.95, 3.26, 2.85] * 2 * pi"
    by (simp add: derive_model_def Let_def)
  have t1: "1 \<le> turn_number_estimation [5.97, 3.95, 3.26, 2.85]"
    and t2: "turn_number_estimation [5.97, 3.95, 3.26, 2.85] \<le> 3"
    by (simp_all add: turn_number_estimation_def dot_def coefs_turns_def)
  have p1: "2 \<le> pi" by (rule pi_ge_two)
  have p2: "pi \<le> 4" using pi_less_4 by simp
  have "1 * 2 * 2 \<le> turn_number_estimation [5.97, 3.95, 3.26, 2.85] * 2 * pi"
    using t1 p1 by (intro mult_mono) simp_all
  then show "4 \<le> c_length (derive_model [5.97, 3.95, 3.26, 2.85])" unfolding c by simp
  have "turn_number_estimation [5.97, 3.95, 3.26, 2.85] * 2 * pi \<le> 3 * 2 * 4"
    using t1 t2 p1 p2 by (intro mult_mono) simp_all
  then show "c_length (derive_model [5.97, 3.95, 3.26, 2.85]) \<le> 24" unfolding c by simp
qed

lemma fl_le_twice: "0 \<le> x \<Longrightarrow> fl x \<le> 2 * x"
  using fl_close_pos(2) [of x] by (cases "x = 0") (simp_all add: fl_zero less_le)


lemma fl_ge_twice_neg: "x \<le> 0 \<Longrightarrow> 2 * x \<le> fl x"
  using fl_le_twice [of "- x"] by (simp add: fl_minus)

text \<open>The rounded quotient of the length computation, for a stop that is not negative.\<close>

lemma quotient_pos_step:
  assumes "0 < step" "0 \<le> stop"
  shows "0 \<le> fl (fl stop / step)" and "fl (fl stop / step) \<le> 4 * stop / step"
proof -
  have a: "0 \<le> fl stop" using assms(2) by (rule fl_nonneg)
  have b: "fl stop \<le> 2 * stop" using assms(2) by (rule fl_le_twice)
  have q: "0 \<le> fl stop / step" using a assms(1) by simp
  show "0 \<le> fl (fl stop / step)" using q by (rule fl_nonneg)
  have "fl (fl stop / step) \<le> 2 * (fl stop / step)" using q by (rule fl_le_twice)
  also have "\<dots> \<le> 2 * (2 * stop / step)"
    using b assms(1) by (simp add: divide_right_mono)
  finally show "fl (fl stop / step) \<le> 4 * stop / step" by simp
qed

lemma quotient_neg_step:
  assumes "step < 0" "0 \<le> stop"
  shows "fl (fl stop / step) \<le> 0" and "4 * stop / step \<le> fl (fl stop / step)"
proof -
  have a: "0 \<le> fl stop" using assms(2) by (rule fl_nonneg)
  have b: "fl stop \<le> 2 * stop" using assms(2) by (rule fl_le_twice)
  have q: "fl stop / step \<le> 0" using a assms(1) by (simp add: divide_nonneg_neg)
  show "fl (fl stop / step) \<le> 0" using q by (rule fl_nonpos)
  have "2 * (2 * stop / step) \<le> 2 * (fl stop / step)"
    using b assms(1) by (simp add: divide_right_mono_neg)
  also have "\<dots> \<le> fl (fl stop / step)" using q by (rule fl_ge_twice_neg)
  finally show "4 * stop / step \<le> fl (fl stop / step)" by simp
qed

lemma ceiling_nonneg_real:
  assumes "0 \<le> (x::real)"
  shows "0 \<le> \<lceil>x\<rceil>"
proof -
  have "x \<le> of_int \<lceil>x\<rceil>" by (rule le_of_int_ceiling)
  with assms have "(0::real) \<le> of_int \<lceil>x\<rceil>" by linarith
  then show ?thesis by simp
qed

lemma ceiling_nonpos_real:
  assumes "(x::real) \<le> 0"
  shows "\<lceil>x\<rceil> \<le> 0"
  using assms by (simp add: ceiling_le_zero)

text \<open>\<open>np.arange(0, stop, step)\<close>: the cases of the length and the entries.\<close>

lemma arange_zero_step: "arange start stop 0 = Inl Numpy_arange_error"
  by (simp add: arange_def)

lemma arange_from_zero:
  assumes "step \<noteq> 0"
  shows "arange 0 stop step =
     (if \<lceil>fl (fl stop / step)\<rceil> < - (2 ^ 63) \<or> 2 ^ 63 - 1 < \<lceil>fl (fl stop / step)\<rceil>
      then Inl Numpy_arange_error
      else Inr (map (\<lambda>i. fl (real i * fl step)) [0 ..< nat \<lceil>fl (fl stop / step)\<rceil>]))"
proof -
  have e: "(if i = 0 then fl 0 else if i = 1 then fl (0 + step)
            else fl (fl 0 + fl (real i * fl (fl (0 + step) - fl 0)))) = fl (real i * fl step)" for i :: nat
    by (simp add: fl_zero fl_idem)
  show ?thesis
    using assms unfolding arange_def Let_def e by simp
qed

lemma arange_negative_step:
  assumes "step < 0" "0 \<le> stop"
  shows "arange 0 stop step =
     (if \<lceil>fl (fl stop / step)\<rceil> < - (2 ^ 63) then Inl Numpy_arange_error else Inr [])"
proof -
  have "\<lceil>fl (fl stop / step)\<rceil> \<le> 0"
    using quotient_neg_step(1) [OF assms] by (rule ceiling_nonpos_real)
  then show ?thesis using assms by (simp add: arange_from_zero)
qed

lemma arange_positive_step:
  assumes "0 < step" "0 \<le> stop" "\<lceil>fl (fl stop / step)\<rceil> \<le> 2 ^ 63 - 1"
  shows "arange 0 stop step = Inr (map (\<lambda>i. fl (real i * fl step)) [0 ..< nat \<lceil>fl (fl stop / step)\<rceil>])"
proof -
  have "0 \<le> \<lceil>fl (fl stop / step)\<rceil>"
    using quotient_pos_step(1) [OF assms(1,2)] by (rule ceiling_nonneg_real)
  then show ?thesis using assms by (simp add: arange_from_zero)
qed

lemma length_in_range_pos:
  assumes "0 < step" "0 \<le> stop" "4 * stop / step \<le> 2 ^ 62"
  shows "\<lceil>fl (fl stop / step)\<rceil> \<le> 2 ^ 63 - 1"
proof -
  have "fl (fl stop / step) \<le> 4 * stop / step" using assms(1,2) by (rule quotient_pos_step(2))
  also have "\<dots> \<le> 2 ^ 62" by (rule assms(3))
  also have "\<dots> \<le> real_of_int (2 ^ 63 - 1)" by simp
  finally show ?thesis by (simp only: ceiling_le_iff)
qed

lemma length_in_range_neg:
  assumes "step < 0" "0 \<le> stop" "- (2 ^ 62) \<le> 4 * stop / step"
  shows "\<not> \<lceil>fl (fl stop / step)\<rceil> < - (2 ^ 63)"
proof -
  have "real_of_int (- (2 ^ 63)) \<le> - (2 ^ 62)" by simp
  also have "\<dots> \<le> 4 * stop / step" by (rule assms(3))
  also have "\<dots> \<le> fl (fl stop / step)" using assms(1,2) by (rule quotient_neg_step(2))
  also have "\<dots> \<le> real_of_int \<lceil>fl (fl stop / step)\<rceil>" by (rule le_of_int_ceiling)
  finally have "- (2 ^ 63) \<le> \<lceil>fl (fl stop / step)\<rceil>" by (simp only: of_int_le_iff)
  then show ?thesis by simp
qed

lemma generate_geometry_shape:
  assumes "0 < resolution" "0 \<le> c_length m"
      and "\<lceil>fl (fl (c_length m) / resolution)\<rceil> \<le> 2 ^ 63 - 1"
      and "\<lceil>fl (fl (2 * pi) / resolution)\<rceil> \<le> 2 ^ 63 - 1"
  shows "\<exists>geo. generate_geometry m resolution = Inr geo
     \<and> geo_phi geo = map (\<lambda>i. fl (real i * fl resolution))
                         [0 ..< nat \<lceil>fl (fl (c_length m) / resolution)\<rceil>]
     \<and> centerline geo = [map2 (\<lambda>r p. r * cos p) (map (radius_modiolus_poly m) (geo_phi geo)) (geo_phi geo),
                          map2 (\<lambda>r p. r * sin p) (map (radius_modiolus_poly m) (geo_phi geo)) (geo_phi geo),
                          map (height_poly m) (geo_phi geo)]"
proof -
  have a: "arange 0 (c_length m) resolution
           = Inr (map (\<lambda>i. fl (real i * fl resolution)) [0 ..< nat \<lceil>fl (fl (c_length m) / resolution)\<rceil>])"
    using assms(1,2,3) by (rule arange_positive_step)
  have b: "arange 0 (2 * pi) resolution
           = Inr (map (\<lambda>i. fl (real i * fl resolution)) [0 ..< nat \<lceil>fl (fl (2 * pi) / resolution)\<rceil>])"
    using assms(1) _ assms(4) by (rule arange_positive_step) simp
  show ?thesis unfolding generate_geometry_def a b by (simp add: Let_def)
qed



subsection \<open>Geometry generation at a resolution that is not positive\<close>

text \<open>
  C3, as stated, fails: at the resolution \<open>-1\<close> the mean model's \<open>generate_geometry\<close>
  raises nothing and returns a geometry without samples.
\<close>

theorem negative_resolution_counterexample:
  "generate_geometry (derive_model [5.97, 3.95, 3.26, 2.85]) (-1) =
     Inr \<lparr> centerline = [[], [], []], scala_x = [], scala_y = [], scala_z = [],
           geo_phi = [], geo_turns = [], r_modiolus = [] \<rparr>"
proof -
  have c0: "0 \<le> c_length (derive_model [5.97, 3.95, 3.26, 2.85])"
    using mean_c_length_pos by simp
  have r1: "\<not> \<lceil>fl (fl (c_length (derive_model [5.97, 3.95, 3.26, 2.85])) / (-1))\<rceil> < - (2 ^ 63)"
    using mean_c_length_bounds(2) c0 by (intro length_in_range_neg) simp_all
  have r2: "\<not> \<lceil>fl (fl (2 * pi) / (-1))\<rceil> < - (2 ^ 63)"
    using pi_less_4 by (intro length_in_range_neg) simp_all
  have a: "arange 0 (c_length (derive_model [5.97, 3.95, 3.26, 2.85])) (-1) = Inr []"
    using arange_negative_step [of "-1" "c_length (derive_model [5.97, 3.95, 3.26, 2.85])"] c0 r1
    by simp
  have b: "arange 0 (2 * pi) (-1) = Inr []"
    using arange_negative_step [of "-1" "2 * pi"] r2 by simp
  show ?thesis unfolding generate_geometry_def a b by simp
qed

text \<open>
  C3, amended.  \<open>generate_geometry\<close> does not check its resolution.  For a model with a
  total angle that is not negative and a negative resolution, the call returns the
  geometry with no samples, three empty centerline rows and empty surface arrays, and no
  error, unless the ceiling of one of the two float64 quotients, total angle by
  resolution and \<open>2 * pi\<close> by resolution, is below the 64-bit index range (a resolution
  within about \<open>10^-18\<close> of zero); then, and at resolution 0, the call fails inside
  \<open>np.arange\<close>, before any geometry is built.
\<close>

theorem nonpositive_resolution:
  "(resolution < 0 \<and> 0 \<le> c_length m \<longrightarrow>
      generate_geometry m resolution =
        (if \<lceil>fl (fl (c_length m) / resolution)\<rceil> < - (2 ^ 63)
            \<or> \<lceil>fl (fl (2 * pi) / resolution)\<rceil> < - (2 ^ 63)
         then Inl Numpy_arange_error
         else Inr \<lparr> centerline = [[], [], []], scala_x = [], scala_y = [], scala_z = [],
                    geo_phi = [], geo_turns = [], r_modiolus = [] \<rparr>))
   \<and> generate_geometry m 0 = Inl Numpy_arange_error"
proof -
  have "generate_geometry m resolution =
        (if \<lceil>fl (fl (c_length m) / resolution)\<rceil> < - (2 ^ 63)
            \<or> \<lceil>fl (fl (2 * pi) / resolution)\<rceil> < - (2 ^ 63)
         then Inl Numpy_arange_error
         else Inr \<lparr> centerline = [[], [], []], scala_x = [], scala_y = [], scala_z = [],
                    geo_phi = [], geo_turns = [], r_modiolus = [] \<rparr>)"
    if h: "resolution < 0" "0 \<le> c_length m"
  proof -
    have a: "arange 0 (c_length m) resolution =
        (if \<lceil>fl (fl (c_length m) / resolution)\<rceil> < - (2 ^ 63) then Inl Numpy_arange_error else Inr [])"
      using h by (rule arange_negative_step)
    have b: "arange 0 (2 * pi) resolution =
        (if \<lceil>fl (fl (2 * pi) / resolution)\<rceil> < - (2 ^ 63) then Inl Numpy_arange_error else Inr [])"
      using h(1) by (rule arange_negative_step) simp
    show ?thesis unfolding generate_geometry_def a b by simp
  qed
  moreover have "generate_geometry m 0 = Inl Numpy_arange_error"
    by (simp add: generate_geometry_def arange_zero_step)
  ultimately show ?thesis by blast
qed

theorem nonpositive_resolution_witness:
  "generate_geometry (derive_model [5.97, 3.95, 3.26, 2.85]) (- 0.1) =
        Inr \<lparr> centerline = [[], [], []], scala_x = [], scala_y = [], scala_z = [],
              geo_phi = [], geo_turns = [], r_modiolus = [] \<rparr>"
proof -
  have c0: "0 \<le> c_length (derive_model [5.97, 3.95, 3.26, 2.85])"
    using mean_c_length_pos by simp
  have h: "(- 0.1 :: real) < 0 \<and> 0 \<le> c_length (derive_model [5.97, 3.95, 3.26, 2.85])"
    using c0 by simp
  have r1: "\<not> \<lceil>fl (fl (c_length (derive_model [5.97, 3.95, 3.26, 2.85])) / (- 0.1))\<rceil> < - (2 ^ 63)"
    using mean_c_length_bounds(2) c0 by (intro length_in_range_neg) simp_all
  have r2: "\<not> \<lceil>fl (fl (2 * pi) / (- 0.1))\<rceil> < - (2 ^ 63)"
    using pi_less_4 by (intro length_in_range_neg) simp_all
  from nonpositive_resolution [of "- 0.1" "derive_model [5.97, 3.95, 3.26, 2.85]"] h r1 r2
  show ?thesis by simp
qed

subsection \<open>Sampling of the centerline\<close>




text \<open>Two cases of the rounding, on model records with a total angle that is a small integer.\<close>

lemma fl_eval:
  assumes "0 < x" "2 powi e \<le> x" "x < 2 powi (e + 1)"
      and "round_half_even (x / 2 powi (e - 52)) = k"
  shows "fl x = of_int k * 2 powi (e - 52)"
proof -
  have "expo x = e" using assms(1,2,3) by (intro expo_unique) simp_all
  then show ?thesis using assms(1,4) by (simp add: fl_pos_eq)
qed

lemma fl_one: "fl 1 = 1"
  using fl_of_scaled_int [of "2 ^ 52" "- 52"] by simp

lemma fl_three: "fl 3 = 3"
  using fl_of_scaled_int [of "3 * 2 ^ 51" "- 51"] by simp

lemma fl_third_down: "fl third_down = third_down"
  using fl_of_scaled_int [of 6004799503160661 "- 54"] by (simp add: third_down_def)

lemma fl_step_59: "fl step_59 = step_59"
  using fl_of_scaled_int [of 7327890919111315 "- 57"] by (simp add: step_59_def)

lemma fl_quotient_third: "fl (1 / third_down) = 3"
proof -
  have "fl (1 / third_down) = of_int 6755399441055744 * 2 powi (1 - 52)"
    by (rule fl_eval) (simp_all add: third_down_def round_half_even_def Let_def)
  then show ?thesis by simp
qed

lemma fl_quotient_59: "\<lceil>fl (3 / step_59)\<rceil> = 60"
proof -
  have "fl (3 / step_59) = of_int 8303511812964353 * 2 powi (5 - 52)"
    by (rule fl_eval) (simp_all add: step_59_def round_half_even_def Let_def)
  then have v: "fl (3 / step_59) = 8303511812964353 / 2 ^ 47"
    by (simp add: power_int_minus_divide)
  show ?thesis unfolding v by (rule ceiling_unique) simp_all
qed

lemma fl_sample_59: "fl (59 * step_59) = 3"
proof -
  have "fl (59 * step_59) = of_int 6755399441055744 * 2 powi (1 - 52)"
    by (rule fl_eval) (simp_all add: step_59_def round_half_even_def Let_def)
  then show ?thesis by simp
qed

text \<open>
  With total angle 1 and a step just below one third, three exact multiples of the step
  and a fourth one lie below 1, but the rounded quotient is 3 and there are 3 samples.
\<close>

lemma sample_count_below_exact_ceiling:
  "\<exists>geo. generate_geometry (model_of_angle 1) third_down = Inr geo
     \<and> length (geo_phi geo) = 3
     \<and> \<lceil>c_length (model_of_angle 1) / third_down\<rceil> = 4
     \<and> 3 * third_down < c_length (model_of_angle 1)"
proof -
  have p: "0 < third_down" by (simp add: third_down_def)
  have c: "c_length (model_of_angle 1) = 1" by (simp add: model_of_angle_def)
  have n1: "\<lceil>fl (fl (c_length (model_of_angle 1)) / third_down)\<rceil> = 3"
    by (simp add: c fl_one fl_quotient_third)
  have n2: "\<lceil>fl (fl (2 * pi) / third_down)\<rceil> \<le> 2 ^ 63 - 1"
    using pi_less_4 by (intro length_in_range_pos) (simp_all add: third_down_def)
  obtain geo where g: "generate_geometry (model_of_angle 1) third_down = Inr geo"
    and gp: "geo_phi geo = map (\<lambda>i. fl (real i * fl third_down))
                         [0 ..< nat \<lceil>fl (fl (c_length (model_of_angle 1)) / third_down)\<rceil>]"
  proof -
    have c0: "0 \<le> c_length (model_of_angle 1)" by (simp add: c)
    have n1': "\<lceil>fl (fl (c_length (model_of_angle 1)) / third_down)\<rceil> \<le> 2 ^ 63 - 1"
      unfolding n1 by simp
    from generate_geometry_shape [OF p c0 n1' n2] that show ?thesis by blast
  qed
  have "length (geo_phi geo) = 3" by (simp add: gp n1)
  moreover have "\<lceil>c_length (model_of_angle 1) / third_down\<rceil> = 4"
    by (simp add: c third_down_def)
  moreover have "3 * third_down < c_length (model_of_angle 1)"
    by (simp add: c third_down_def)
  ultimately show ?thesis using g by blast
qed

text \<open>
  With total angle 3 and a step just below \<open>3 / 59\<close> there are 60 samples, and the last
  one, the rounded product \<open>59 * step\<close>, is the total angle itself.
\<close>

lemma last_sample_reaches_total_angle:
  "\<exists>geo. generate_geometry (model_of_angle 3) step_59 = Inr geo
     \<and> length (geo_phi geo) = 60
     \<and> geo_phi geo ! 59 = c_length (model_of_angle 3)
     \<and> 59 * step_59 < c_length (model_of_angle 3)"
proof -
  have p: "0 < step_59" by (simp add: step_59_def)
  have c: "c_length (model_of_angle 3) = 3" by (simp add: model_of_angle_def)
  have n1: "\<lceil>fl (fl (c_length (model_of_angle 3)) / step_59)\<rceil> = 60"
    by (simp add: c fl_three fl_quotient_59)
  have n2: "\<lceil>fl (fl (2 * pi) / step_59)\<rceil> \<le> 2 ^ 63 - 1"
    using pi_less_4 by (intro length_in_range_pos) (simp_all add: step_59_def)
  obtain geo where g: "generate_geometry (model_of_angle 3) step_59 = Inr geo"
    and gp: "geo_phi geo = map (\<lambda>i. fl (real i * fl step_59))
                         [0 ..< nat \<lceil>fl (fl (c_length (model_of_angle 3)) / step_59)\<rceil>]"
  proof -
    have c0: "0 \<le> c_length (model_of_angle 3)" by (simp add: c)
    have n1': "\<lceil>fl (fl (c_length (model_of_angle 3)) / step_59)\<rceil> \<le> 2 ^ 63 - 1"
      unfolding n1 by simp
    from generate_geometry_shape [OF p c0 n1' n2] that show ?thesis by blast
  qed
  have gp': "geo_phi geo = map (\<lambda>i. fl (real i * fl step_59)) [0 ..< 60]"
    using gp unfolding n1 by simp
  have "length (geo_phi geo) = 60" by (simp add: gp')
  moreover have "geo_phi geo ! 59 = c_length (model_of_angle 3)"
    by (simp add: gp' c fl_step_59 fl_sample_59)
  moreover have "59 * step_59 < c_length (model_of_angle 3)"
    by (simp add: c step_59_def)
  ultimately show ?thesis using g by blast
qed

subsection \<open>The local tube radius\<close>








subsection \<open>The arc length with and without the height\<close>

lemma integrand_height_dominates: "integrand m False z \<le> integrand m True z"
  by (simp add: integrand_def Let_def)

lemma weighted_terms_mono:
  fixes rule :: "(real \<times> real) list" and f g :: "real \<Rightarrow> real"
  assumes "\<forall>(t, w) \<in> set rule. 0 \<le> w" and "\<And>x. f x \<le> g x"
  shows "sum_list (map (\<lambda>(t, w). w * f (a + t * (b - a))) rule)
         \<le> sum_list (map (\<lambda>(t, w). w * g (a + t * (b - a))) rule)"
  using assms(1)
proof (induction rule)
  case Nil
  show ?case by simp
next
  case (Cons tw rule)
  obtain t w where tw: "tw = (t, w)" by (cases tw)
  have w: "0 \<le> w" using Cons.prems by (simp add: tw)
  have "w * f (a + t * (b - a)) \<le> w * g (a + t * (b - a))"
    using assms(2) w by (rule mult_left_mono)
  moreover have "sum_list (map (\<lambda>(t, w). w * f (a + t * (b - a))) rule)
         \<le> sum_list (map (\<lambda>(t, w). w * g (a + t * (b - a))) rule)"
    using Cons by simp
  ultimately show ?case by (simp add: tw)
qed

text \<open>
  C6.  The arc length with the height term is at least the arc length without it, for a
  total angle that is not negative.  First for the integrals themselves: for any
  antiderivatives \<open>F\<close> of the integrand with height and \<open>G\<close> of the integrand without it on
  the interval from 0 to \<open>c_length\<close>, the increase of \<open>G\<close> over the interval is at most the
  increase of \<open>F\<close>.  Second for \<open>calculate_length\<close> with any quadrature rule whose weights
  are not negative.
\<close>

theorem arc_length_with_height_ge:
  "(0 \<le> c_length m
      \<and> (\<forall>z. 0 \<le> z \<and> z \<le> c_length m \<longrightarrow>
              (F has_real_derivative integrand m True z) (at z)
            \<and> (G has_real_derivative integrand m False z) (at z))
      \<longrightarrow> G (c_length m) - G 0 \<le> F (c_length m) - F 0)
   \<and> (0 \<le> c_length m \<and> (\<forall>(t, w) \<in> set rule. 0 \<le> w)
      \<longrightarrow> calculate_length (weighted_sum rule) m False \<le> calculate_length (weighted_sum rule) m True)"
proof -
  have 1: "G (c_length m) - G 0 \<le> F (c_length m) - F 0"
    if c: "0 \<le> c_length m"
      and d: "\<forall>z. 0 \<le> z \<and> z \<le> c_length m \<longrightarrow>
              (F has_real_derivative integrand m True z) (at z)
            \<and> (G has_real_derivative integrand m False z) (at z)"
  proof -
    have "(\<lambda>z. F z - G z) 0 \<le> (\<lambda>z. F z - G z) (c_length m)"
    proof (rule DERIV_nonneg_imp_nondecreasing [OF c])
      fix z assume z: "0 \<le> z" "z \<le> c_length m"
      have "((\<lambda>z. F z - G z) has_real_derivative (integrand m True z - integrand m False z)) (at z)"
        using d z by (intro DERIV_diff) simp_all
      moreover have "0 \<le> integrand m True z - integrand m False z"
        using integrand_height_dominates [of m z] by simp
      ultimately show "\<exists>y. ((\<lambda>z. F z - G z) has_real_derivative y) (at z) \<and> 0 \<le> y" by blast
    qed
    then show ?thesis by simp
  qed
  have 2: "calculate_length (weighted_sum rule) m False \<le> calculate_length (weighted_sum rule) m True"
    if c: "0 \<le> c_length m" and w: "\<forall>(t, w) \<in> set rule. 0 \<le> w"
  proof -
    have "sum_list (map (\<lambda>(t, w). w * integrand m False (0 + t * (c_length m - 0))) rule)
         \<le> sum_list (map (\<lambda>(t, w). w * integrand m True (0 + t * (c_length m - 0))) rule)"
      using w integrand_height_dominates by (rule weighted_terms_mono)
    then show ?thesis
      unfolding calculate_length_def weighted_sum_def using c by (intro mult_left_mono) simp_all
  qed
  from 1 2 show ?thesis by blast
qed

text \<open>
  The second part at the mean model with Simpson's rule; the first part on the interval
  of length 0, where the antiderivatives are linear functions.
\<close>

theorem arc_length_with_height_ge_witness:
  "calculate_length (weighted_sum [(0, 1 / 6), (1 / 2, 2 / 3), (1, 1 / 6)])
       (derive_model [5.97, 3.95, 3.26, 2.85]) False
     \<le> calculate_length (weighted_sum [(0, 1 / 6), (1 / 2, 2 / 3), (1, 1 / 6)])
       (derive_model [5.97, 3.95, 3.26, 2.85]) True
   \<and> integrand (model_of_angle 0) False 0 * c_length (model_of_angle 0)
        - integrand (model_of_angle 0) False 0 * 0
     \<le> integrand (model_of_angle 0) True 0 * c_length (model_of_angle 0)
        - integrand (model_of_angle 0) True 0 * 0"
proof -
  have h: "0 \<le> c_length (derive_model [5.97, 3.95, 3.26, 2.85])
           \<and> (\<forall>(t, w) \<in> set [(0, 1 / 6), (1 / 2, 2 / 3), (1, 1 / 6 :: real)]. 0 \<le> w)"
    using mean_c_length_pos by simp
  have c: "c_length (model_of_angle 0) = 0" by (simp add: model_of_angle_def)
  have d: "(\<forall>z. 0 \<le> z \<and> z \<le> c_length (model_of_angle 0) \<longrightarrow>
              ((\<lambda>z. integrand (model_of_angle 0) True 0 * z)
                 has_real_derivative integrand (model_of_angle 0) True z) (at z)
            \<and> ((\<lambda>z. integrand (model_of_angle 0) False 0 * z)
                 has_real_derivative integrand (model_of_angle 0) False z) (at z))"
  proof (intro allI impI)
    fix z assume "0 \<le> z \<and> z \<le> c_length (model_of_angle 0)"
    then have z: "z = 0" by (simp add: c)
    have "((\<lambda>z. k * z) has_real_derivative k) (at 0)" for k :: real
      using DERIV_cmult_Id [of k 0] by simp
    then show "((\<lambda>z. integrand (model_of_angle 0) True 0 * z)
                 has_real_derivative integrand (model_of_angle 0) True z) (at z)
            \<and> ((\<lambda>z. integrand (model_of_angle 0) False 0 * z)
                 has_real_derivative integrand (model_of_angle 0) False z) (at z)"
      unfolding z by blast
  qed
  have e: "0 \<le> c_length (model_of_angle 0)" by (simp add: c)
  from arc_length_with_height_ge [where m = "derive_model [5.97, 3.95, 3.26, 2.85]"
      and rule = "[(0, 1 / 6), (1 / 2, 2 / 3), (1, 1 / 6)]"] h
  have 1: "calculate_length (weighted_sum [(0, 1 / 6), (1 / 2, 2 / 3), (1, 1 / 6)])
       (derive_model [5.97, 3.95, 3.26, 2.85]) False
     \<le> calculate_length (weighted_sum [(0, 1 / 6), (1 / 2, 2 / 3), (1, 1 / 6)])
       (derive_model [5.97, 3.95, 3.26, 2.85]) True" by blast
  from arc_length_with_height_ge [where m = "model_of_angle 0"
      and F = "\<lambda>z. integrand (model_of_angle 0) True 0 * z"
      and G = "\<lambda>z. integrand (model_of_angle 0) False 0 * z"] e d
  have 2: "integrand (model_of_angle 0) False 0 * c_length (model_of_angle 0)
        - integrand (model_of_angle 0) False 0 * 0
     \<le> integrand (model_of_angle 0) True 0 * c_length (model_of_angle 0)
        - integrand (model_of_angle 0) True 0 * 0" by blast
  from 1 2 show ?thesis ..
qed

end
